theory Spec2Isabelle
  imports Main
begin

section \<open>Values, options and errors\<close>

text \<open>
  The session of \<^verbatim>\<open>lib/WebSocket.js\<close> is modelled as a record that is passed through
  every operation and handler. The values that reach a session from the application are
  JavaScript values; only what the code inspects is kept apart: falsiness (\<^verbatim>\<open>!data\<close>),
  being \<^verbatim>\<open>undefined\<close>, being \<^verbatim>\<open>true\<close>, being an \<^verbatim>\<open>fs.ReadStream\<close>.
  Numbers are integers plus NaN; a ReadStream and any other object carry an identity.
\<close>

datatype jsval =
    Undefined
  | Null
  | JBool bool
  | JNum int
  | JNaN
  | JStr string
  | JBuffer "nat list"
  | ReadStream nat
  | JObject nat

fun falsy :: "jsval \<Rightarrow> bool" where
  "falsy Undefined = True"
| "falsy Null = True"
| "falsy (JBool b) = (\<not> b)"
| "falsy (JNum n) = (n = 0)"
| "falsy JNaN = True"
| "falsy (JStr s) = (s = [])"
| "falsy (JBuffer bs) = False"
| "falsy (ReadStream i) = False"
| "falsy (JObject i) = False"

text \<open>\<^verbatim>\<open>a || b\<close>\<close>

definition js_or :: "jsval \<Rightarrow> jsval \<Rightarrow> jsval" where
  "js_or a b = (if falsy a then b else a)"

text \<open>
  The options object of send, ping, pong and stream: the three members the code reads or
  writes. A member that was never set is \<^const>\<open>Undefined\<close>.
\<close>

record opts =
  mask :: jsval
  binary :: jsval
  fin :: jsval

definition no_opts :: opts where
  "no_opts = \<lparr>mask = Undefined, binary = Undefined, fin = Undefined\<rparr>"

text \<open>
  The second argument of send and stream is absent (or falsy), a function (then it is the
  callback), or an options object. Callbacks are application code: they are known by an
  identity, and calling one is an observation.
\<close>

type_synonym cbid = nat

datatype optarg = OAbsent | OFun cbid | OObj opts

datatype error =
    NotOpened            \<comment> \<open>\<^verbatim>\<open>new Error('not opened')\<close>\<close>
  | CallbackMissing      \<comment> \<open>\<^verbatim>\<open>new Error('callback must be provided')\<close>\<close>
  | InvalidUrl           \<comment> \<open>\<^verbatim>\<open>new Error('invalid url')\<close>\<close>
  | UnsupportedVersion   \<comment> \<open>\<^verbatim>\<open>new Error('unsupported protocol version')\<close>\<close>
  | InvalidServerKey     \<comment> \<open>the string \<^verbatim>\<open>'invalid server key'\<close>\<close>
  | External string      \<comment> \<open>an Error object that comes from the request, the Sender or the Receiver\<close>
  | Text string          \<comment> \<open>a string given as the error by a collaborator\<close>
  | Unspecified          \<comment> \<open>\<^verbatim>\<open>new Error("Uncaught, unspecified 'error' event.")\<close>\<close>

datatype ready = CONNECTING | OPEN | CLOSING | CLOSED

section \<open>What a session does to its surroundings\<close>

text \<open>
  The Sender (\<^verbatim>\<open>./Sender\<close>) is not part of this file of the library. A call on it is
  recorded in the order it is made; whether the call raises is a parameter of the model
  (\<open>None\<close>: the call returns). What it reports later comes as its error event.
  \<^verbatim>\<open>socket.end()\<close> is recorded and does not raise.
\<close>

datatype enc_call =
    ESend jsval opts "cbid option"      \<comment> \<open>\<^verbatim>\<open>_sender.send(data, options, cb)\<close>\<close>
  | EPing jsval opts                    \<comment> \<open>\<^verbatim>\<open>_sender.ping(data, options)\<close>\<close>
  | EPong jsval opts                    \<comment> \<open>\<^verbatim>\<open>_sender.pong(data, options)\<close>\<close>
  | EClose jsval jsval bool             \<comment> \<open>\<^verbatim>\<open>_sender.close(code, data, mask)\<close>\<close>

type_synonym sender = "enc_call \<Rightarrow> error option"

definition accepting :: sender where
  "accepting = (\<lambda>c. None)"

text \<open>A Sender whose close raises, and which takes every other call.\<close>

definition close_rejecting :: sender where
  "close_rejecting c =
     (case c of EClose code data m \<Rightarrow> Some (External ''invalid code'') | _ \<Rightarrow> None)"

datatype ev =
    EvOpen
  | EvCloseBare                 \<comment> \<open>\<^verbatim>\<open>emit('close')\<close>\<close>
  | EvClose jsval jsval         \<comment> \<open>\<^verbatim>\<open>emit('close', code, message)\<close>\<close>
  | EvMessage jsval jsval       \<comment> \<open>data and \<^verbatim>\<open>flags.binary\<close>\<close>
  | EvPing jsval jsval          \<comment> \<open>data and \<^verbatim>\<open>flags.binary\<close>\<close>
  | EvError error jsval         \<comment> \<open>the error and the error code (or undefined)\<close>

text \<open>
  The callback that send gives to sendStream:
  \<^verbatim>\<open>function(error) { process.nextTick(...executeQueueSends...); if (typeof cb == 'function') cb(error); }\<close>
\<close>

datatype cont = SendDone "cbid option"

datatype obs =
    Enc enc_call                \<comment> \<open>a call on the Sender\<close>
  | SockEnd                     \<comment> \<open>\<^verbatim>\<open>socket.end()\<close>\<close>
  | Emit ev                     \<comment> \<open>an event given to the listeners\<close>
  | Cb cbid "error option"      \<comment> \<open>\<^verbatim>\<open>cb(error)\<close>, \<open>None\<close> for \<^verbatim>\<open>cb(null)\<close>\<close>
  | CbPush cbid nat             \<comment> \<open>\<^verbatim>\<open>cb(null, send)\<close> of stream; the number names the closure \<^verbatim>\<open>send\<close>\<close>
  | Raised error                \<comment> \<open>an exception that left the operation or the handler\<close>
  | StreamOn nat opts "cont option"
      \<comment> \<open>sendStream has put its data and end handlers, closed over the options and cb, on the stream\<close>

text \<open>The closures that send and stream put on the queue.\<close>

datatype deferred =
    DSend jsval optarg "cbid option"    \<comment> \<open>\<^verbatim>\<open>function() { self.send(data, options, cb); }\<close>\<close>
  | DStream optarg "cbid option"        \<comment> \<open>\<^verbatim>\<open>function() { self.stream(options, cb); }\<close>\<close>

text \<open>The functions given to \<^verbatim>\<open>process.nextTick\<close>.\<close>

datatype task =
    TUpgrade                    \<comment> \<open>\<^verbatim>\<open>upgrade.apply(self, address)\<close> of the server constructor\<close>
  | TExecQueue                  \<comment> \<open>\<^verbatim>\<open>executeQueueSends(self)\<close>\<close>
  | TStreamCb cbid nat          \<comment> \<open>\<^verbatim>\<open>cb.bind(null, null, send)\<close>; the number names the closure \<^verbatim>\<open>send\<close>\<close>

section \<open>The session\<close>

record session =
  isServer :: bool
  readyState :: ready                   \<comment> \<open>\<^verbatim>\<open>_readyState\<close>\<close>
  socket :: bool                        \<comment> \<open>\<^verbatim>\<open>_socket\<close> is not null\<close>
  attached :: bool                      \<comment> \<open>upgrade has run: \<^verbatim>\<open>_sender\<close>, the Receiver and the socket handlers exist\<close>
  pending :: bool                       \<comment> \<open>client: the request has not had its upgrade event yet\<close>
  key :: string                         \<comment> \<open>client: the Sec-WebSocket-Key header sent\<close>
  expectedServerKey :: string           \<comment> \<open>client: the closure variable of the upgrade handler\<close>
  queue :: "deferred list option"       \<comment> \<open>\<^verbatim>\<open>_queue\<close>, \<open>None\<close> when the property is absent\<close>
  closeCode :: jsval                    \<comment> \<open>\<^verbatim>\<open>_closeCode\<close>\<close>
  closeMessage :: jsval                 \<comment> \<open>\<^verbatim>\<open>_closeMessage\<close>\<close>
  errorListener :: bool                 \<comment> \<open>the application has a listener on the error event\<close>
  readers :: "(nat \<times> opts \<times> cont option) list"
      \<comment> \<open>the handlers sendStream has installed: the stream, and the options and cb they close over\<close>
  streams :: "(opts \<times> cbid) list"
      \<comment> \<open>the closures \<^verbatim>\<open>send\<close> that stream has made: the options and cb they close over\<close>
  ticks :: "task list"                  \<comment> \<open>the functions waiting for the next tick, oldest first\<close>
  trace :: "obs list"                   \<comment> \<open>everything observed so far, oldest first\<close>

definition out :: "obs \<Rightarrow> session \<Rightarrow> session" where
  "out x s = s\<lparr>trace := trace s @ [x]\<rparr>"

definition nextTick :: "task \<Rightarrow> session \<Rightarrow> session" where
  "nextTick t s = s\<lparr>ticks := ticks s @ [t]\<rparr>"

text \<open>A call on the Sender: the call is observed, and it returns or raises.\<close>

definition call :: "sender \<Rightarrow> enc_call \<Rightarrow> session \<Rightarrow> error option \<times> session" where
  "call sd c s = (sd c, out (Enc c) s)"

text \<open>
  The \<^verbatim>\<open>emit\<close> that the constructor installs:
  \<^verbatim>\<open>if (event == 'error') delete this._queue; realEmit.apply(this, arguments);\<close>
  The listeners are application code; the event they receive is an observation.

  \<^verbatim>\<open>realEmit\<close> is the platform's \<^verbatim>\<open>EventEmitter.prototype.emit\<close>. For the error event
  with no listener registered it calls nobody and throws: its argument when that is an
  Error object, a new Error otherwise.
\<close>

fun is_error :: "ev \<Rightarrow> bool" where
  "is_error (EvError e c) = True"
| "is_error _ = False"

fun thrown :: "error \<Rightarrow> error" where
  "thrown InvalidServerKey = Unspecified"
| "thrown (Text t) = Unspecified"
| "thrown e = e"

definition emit :: "ev \<Rightarrow> session \<Rightarrow> error option \<times> session" where
  "emit e s =
     (let s' = (if is_error e then s\<lparr>queue := None\<rparr> else s) in
      case e of
        EvError x c \<Rightarrow> if errorListener s then (None, out (Emit e) s') else (Some (thrown x), s')
      | _ \<Rightarrow> (None, out (Emit e) s'))"

subsection \<open>The constructor\<close>

text \<open>
  \<^verbatim>\<open>new Buffer(version + '-' + Date.now()).toString('base64')\<close> and
  \<^verbatim>\<open>sha1(key + '258EAFA5-E914-47DA-95CA-C5AB0DC85B11').digest('base64')\<close>.
  Base64 and SHA-1 belong to the platform: they are parameters.
\<close>

definition digit :: "nat \<Rightarrow> char" where
  "digit d = ''0123456789'' ! d"

fun decimal :: "nat \<Rightarrow> string" where
  "decimal n = (if n < 10 then [digit n] else decimal (n div 10) @ [digit (n mod 10)])"

declare decimal.simps [simp del]

definition GUID :: string where
  "GUID = ''258EAFA5-E914-47DA-95CA-C5AB0DC85B11''"

definition session_key :: "(string \<Rightarrow> string) \<Rightarrow> nat \<Rightarrow> nat \<Rightarrow> string" where
  "session_key encode version now = encode (decimal version @ ''-'' @ decimal now)"

definition accept_of :: "(string \<Rightarrow> string) \<Rightarrow> (string \<Rightarrow> string) \<Rightarrow> string \<Rightarrow> string" where
  "accept_of encode digest k = encode (digest (k @ GUID))"

definition fresh :: session where
  "fresh = \<lparr>isServer = False, readyState = CONNECTING, socket = False, attached = False,
     pending = False, key = [], expectedServerKey = [], queue = None,
     closeCode = Undefined, closeMessage = Undefined, errorListener = False,
     readers = [], streams = [], ticks = [], trace = []\<rparr>"

text \<open>
  The client branch: \<open>host\<close> says whether \<^verbatim>\<open>url.parse(address).host\<close> is there,
  \<open>version\<close> is \<^verbatim>\<open>options.value.protocolVersion\<close>, \<open>now\<close> is \<^verbatim>\<open>Date.now()\<close>.
\<close>

definition new_client ::
  "(string \<Rightarrow> string) \<Rightarrow> (string \<Rightarrow> string) \<Rightarrow> bool \<Rightarrow> nat \<Rightarrow> nat \<Rightarrow> error + session" where
  "new_client encode digest host version now =
     (if \<not> host then Inl InvalidUrl
      else if version \<noteq> 8 \<and> version \<noteq> 13 then Inl UnsupportedVersion
      else let k = session_key encode version now in
        Inr (fresh\<lparr>pending := True, key := k, expectedServerKey := accept_of encode digest k\<rparr>))"

text \<open>The server branch: the upgrade is left to the next tick.\<close>

definition new_server :: session where
  "new_server = fresh\<lparr>isServer := True, ticks := [TUpgrade]\<rparr>"

subsection \<open>terminate, close, ping, pong\<close>

definition terminate :: "session \<Rightarrow> session" where
  "terminate s =
     (if socket s then (out SockEnd s)\<lparr>socket := False\<rparr>
      else if readyState s = CONNECTING then s\<lparr>readyState := CLOSED\<rparr>
      else s)"

definition close :: "sender \<Rightarrow> jsval \<Rightarrow> jsval \<Rightarrow> session \<Rightarrow> error option \<times> session" where
  "close sd code data s =
     (if readyState s = CLOSING then (None, s)
      else if readyState s = CONNECTING then (None, s\<lparr>readyState := CLOSED\<rparr>)
      else if readyState s \<noteq> OPEN then (Some NotOpened, s)
      else
        (case call sd (EClose code data (\<not> isServer s))
                (s\<lparr>readyState := CLOSING, closeCode := code, closeMessage := data\<rparr>) of
           (None, s') \<Rightarrow> (None, terminate s')
         | (Some e, s') \<Rightarrow> emit (EvError e Undefined) s'))"

text \<open>\<^verbatim>\<open>options = options || {}; if (typeof options.mask == 'undefined') options.mask = !this._isServer;\<close>\<close>

definition default_mask :: "session \<Rightarrow> opts \<Rightarrow> opts" where
  "default_mask s o' = (if mask o' = Undefined then o'\<lparr>mask := JBool (\<not> isServer s)\<rparr> else o')"

definition ping :: "sender \<Rightarrow> jsval \<Rightarrow> opts option \<Rightarrow> session \<Rightarrow> error option \<times> session" where
  "ping sd data options s =
     (if readyState s \<noteq> OPEN then (Some NotOpened, s)
      else call sd (EPing data (default_mask s (case options of None \<Rightarrow> no_opts | Some o' \<Rightarrow> o'))) s)"

definition pong :: "sender \<Rightarrow> jsval \<Rightarrow> opts option \<Rightarrow> session \<Rightarrow> error option \<times> session" where
  "pong sd data options s =
     (if readyState s \<noteq> OPEN then (Some NotOpened, s)
      else call sd (EPong data (default_mask s (case options of None \<Rightarrow> no_opts | Some o' \<Rightarrow> o'))) s)"

subsection \<open>send, stream and the queue\<close>

definition startQueue :: "session \<Rightarrow> session" where
  "startQueue s = s\<lparr>queue := Some (case queue s of None \<Rightarrow> [] | Some q \<Rightarrow> q)\<rparr>"

text \<open>
  sendStream only installs two handlers on the stream; what they do when the stream
  produces a chunk or ends is \<open>sendStream_data\<close> and \<open>sendStream_end\<close> below, with
  the options and the cb that were installed.
\<close>

definition sendStream :: "nat \<Rightarrow> opts \<Rightarrow> cont option \<Rightarrow> session \<Rightarrow> session" where
  "sendStream stream options cb s =
     out (StreamOn stream options cb) (s\<lparr>readers := readers s @ [(stream, options, cb)]\<rparr>)"

definition send :: "sender \<Rightarrow> jsval \<Rightarrow> optarg \<Rightarrow> cbid option \<Rightarrow> session \<Rightarrow> error option \<times> session" where
  "send sd data options cb s =
     (let cb1 = (case options of OFun f \<Rightarrow> Some f | _ \<Rightarrow> cb);
          options1 = (case options of OFun f \<Rightarrow> OObj no_opts | _ \<Rightarrow> options)
      in
      if readyState s \<noteq> OPEN then
        (case cb1 of Some c \<Rightarrow> (None, out (Cb c (Some NotOpened)) s) | None \<Rightarrow> (Some NotOpened, s))
      else
        let data1 = (if falsy data then JStr [] else data) in
        (case queue s of
           Some q \<Rightarrow> (None, s\<lparr>queue := Some (q @ [DSend data1 options1 cb1])\<rparr>)
         | None \<Rightarrow>
             let options2 = default_mask s
                   ((case options1 of OObj o' \<Rightarrow> o' | _ \<Rightarrow> no_opts)\<lparr>fin := JBool True\<rparr>)
             in
             (case data1 of
                ReadStream i \<Rightarrow> (None, sendStream i options2 (Some (SendDone cb1)) (startQueue s))
              | _ \<Rightarrow> call sd (ESend data1 options2 cb1) s)))"

definition stream :: "optarg \<Rightarrow> cbid option \<Rightarrow> session \<Rightarrow> error option \<times> session" where
  "stream options cb s =
     (let cb1 = (case options of OFun f \<Rightarrow> Some f | _ \<Rightarrow> cb);
          options1 = (case options of OFun f \<Rightarrow> OObj no_opts | _ \<Rightarrow> options)
      in
      (case cb1 of
         None \<Rightarrow> (Some CallbackMissing, s)
       | Some c \<Rightarrow>
           if readyState s \<noteq> OPEN then (None, out (Cb c (Some NotOpened)) s)
           else
             (case queue s of
                Some q \<Rightarrow> (None, s\<lparr>queue := Some (q @ [DStream options1 cb1])\<rparr>)
              | None \<Rightarrow>
                  let options2 = default_mask s (case options1 of OObj o' \<Rightarrow> o' | _ \<Rightarrow> no_opts)
                  in (None, nextTick (TStreamCb c (length (streams s)))
                              ((startQueue s)\<lparr>streams := streams s @ [(options2, c)]\<rparr>)))))"

text \<open>Calling a queued closure.\<close>

fun invoke :: "sender \<Rightarrow> deferred \<Rightarrow> session \<Rightarrow> error option \<times> session" where
  "invoke sd (DSend data options cb) s = send sd data options cb s"
| "invoke sd (DStream options cb) s = stream options cb s"

text \<open>
  The loop of executeQueueSends over the array that was the queue: an exception in one
  closure leaves the loop, and the closures after it are not called.
\<close>

fun replay :: "sender \<Rightarrow> deferred list \<Rightarrow> session \<Rightarrow> error option \<times> session" where
  "replay sd [] s = (None, s)"
| "replay sd (d # ds) s =
     (case invoke sd d s of
        (None, s') \<Rightarrow> replay sd ds s'
      | (Some e, s') \<Rightarrow> (Some e, s'))"

definition executeQueueSends :: "sender \<Rightarrow> session \<Rightarrow> error option \<times> session" where
  "executeQueueSends sd s =
     (case queue s of
        None \<Rightarrow> (None, s)
      | Some q \<Rightarrow> replay sd q (s\<lparr>queue := None\<rparr>))"

text \<open>
  The function \<^verbatim>\<open>send(data, final)\<close> that stream hands to its callback, closed over the
  options and the callback of that stream call: the closure number \<open>n\<close>. It writes
  \<^verbatim>\<open>fin\<close> into the options it shares with the later calls.
\<close>

definition push :: "sender \<Rightarrow> nat \<Rightarrow> jsval \<Rightarrow> jsval \<Rightarrow> session \<Rightarrow> error option \<times> session" where
  "push sd n data final s =
     (case streams s ! n of (options, cb) \<Rightarrow>
        if readyState s \<noteq> OPEN then (None, out (Cb cb (Some NotOpened)) s)
        else
          let options1 = options\<lparr>fin := JBool (final = JBool True)\<rparr> in
          (case call sd (ESend data options1 None) (s\<lparr>streams := (streams s)[n := (options1, cb)]\<rparr>) of
             (Some e, s') \<Rightarrow> (None, out (Cb cb (Some e)) s')
           | (None, s') \<Rightarrow>
               if falsy final then (None, nextTick (TStreamCb cb n) s')
               else
                 (case executeQueueSends sd s' of
                    (Some e, s'') \<Rightarrow> (None, out (Cb cb (Some e)) s'')
                  | (None, s'') \<Rightarrow> (None, s''))))"

text \<open>The callback given to sendStream, called with an error or with null.\<close>

fun resume :: "cont \<Rightarrow> error option \<Rightarrow> session \<Rightarrow> session" where
  "resume (SendDone cb) err s =
     (let s' = nextTick TExecQueue s in
      case cb of Some c \<Rightarrow> out (Cb c err) s' | None \<Rightarrow> s')"

definition not_opened :: "cont option \<Rightarrow> session \<Rightarrow> error option \<times> session" where
  "not_opened cb s =
     (case cb of
        Some k \<Rightarrow> (None, resume k (Some NotOpened) s)
      | None \<Rightarrow> emit (EvError NotOpened Undefined) s)"

definition sendStream_data :: "sender \<Rightarrow> opts \<Rightarrow> cont option \<Rightarrow> jsval \<Rightarrow> session \<Rightarrow> error option \<times> session" where
  "sendStream_data sd options cb data s =
     (if readyState s \<noteq> OPEN then not_opened cb s
      else call sd (ESend data (options\<lparr>fin := JBool False\<rparr>) None) s)"

definition sendStream_end :: "sender \<Rightarrow> opts \<Rightarrow> cont option \<Rightarrow> session \<Rightarrow> error option \<times> session" where
  "sendStream_end sd options cb s =
     (if readyState s \<noteq> OPEN then not_opened cb s
      else
        (case call sd (ESend Null (options\<lparr>fin := JBool True\<rparr>) None) s of
           (Some e, s') \<Rightarrow> (Some e, s')
         | (None, s') \<Rightarrow> (None, (case cb of Some k \<Rightarrow> resume k None s' | None \<Rightarrow> s'))))"

text \<open>
  A data or end event of a stream calls the handlers installed on that stream in the order
  they were installed; an exception in one leaves the event, and the handlers after it are
  not called.
\<close>

fun on_data :: "sender \<Rightarrow> (nat \<times> opts \<times> cont option) list \<Rightarrow> jsval \<Rightarrow> session \<Rightarrow> error option \<times> session" where
  "on_data sd [] data s = (None, s)"
| "on_data sd ((i, options, cb) # hs) data s =
     (case sendStream_data sd options cb data s of
        (None, s') \<Rightarrow> on_data sd hs data s'
      | (Some e, s') \<Rightarrow> (Some e, s'))"

fun on_end :: "sender \<Rightarrow> (nat \<times> opts \<times> cont option) list \<Rightarrow> session \<Rightarrow> error option \<times> session" where
  "on_end sd [] s = (None, s)"
| "on_end sd ((i, options, cb) # hs) s =
     (case sendStream_end sd options cb s of
        (None, s') \<Rightarrow> on_end sd hs s'
      | (Some e, s') \<Rightarrow> (Some e, s'))"

subsection \<open>upgrade and the handlers it installs\<close>

text \<open>
  upgrade stores the socket, creates the Receiver and the Sender, installs the handlers
  below, sets the state and emits open. The bytes of \<^verbatim>\<open>upgradeHead\<close> go to the Receiver;
  the events it makes of them are the Receiver events that follow.
\<close>

definition upgrade :: "session \<Rightarrow> error option \<times> session" where
  "upgrade s = emit EvOpen (s\<lparr>socket := True, attached := True, readyState := OPEN\<rparr>)"

text \<open>The handler of the socket's end event and of its close event.\<close>

definition socket_gone :: "session \<Rightarrow> error option \<times> session" where
  "socket_gone s =
     (if readyState s = CLOSED then (None, s)
      else emit (EvClose (js_or (closeCode s) (JNum 1000)) (js_or (closeMessage s) (JStr [])))
             (s\<lparr>readyState := CLOSED\<rparr>))"

text \<open>
  The flags of a Receiver event are absent or an object; \<open>Some b\<close> is an object whose
  member \<^verbatim>\<open>binary\<close> is \<open>b\<close>. \<^verbatim>\<open>flags = flags || {}\<close>.
\<close>

definition binary_of :: "jsval option \<Rightarrow> jsval" where
  "binary_of flags = (case flags of None \<Rightarrow> Undefined | Some b \<Rightarrow> b)"

definition receiver_text :: "jsval \<Rightarrow> jsval option \<Rightarrow> session \<Rightarrow> error option \<times> session" where
  "receiver_text data flags s = emit (EvMessage data (binary_of flags)) s"

definition receiver_binary :: "jsval \<Rightarrow> jsval option \<Rightarrow> session \<Rightarrow> error option \<times> session" where
  "receiver_binary data flags s = emit (EvMessage data (JBool True)) s"

definition receiver_ping :: "sender \<Rightarrow> jsval \<Rightarrow> jsval option \<Rightarrow> session \<Rightarrow> error option \<times> session" where
  "receiver_ping sd data flags s =
     (case pong sd data
             (Some \<lparr>mask = JBool (\<not> isServer s), binary = JBool (binary_of flags = JBool True),
                    fin = Undefined\<rparr>) s of
        (Some e, s') \<Rightarrow> (Some e, s')
      | (None, s') \<Rightarrow> emit (EvPing data (binary_of flags)) s')"

definition receiver_close :: "sender \<Rightarrow> jsval \<Rightarrow> jsval \<Rightarrow> session \<Rightarrow> error option \<times> session" where
  "receiver_close sd code data s = close sd code data s"

definition receiver_error :: "sender \<Rightarrow> error \<Rightarrow> jsval \<Rightarrow> session \<Rightarrow> error option \<times> session" where
  "receiver_error sd reason errorCode s =
     (if errorCode \<noteq> Undefined then
        (case close sd errorCode (JStr []) s of
           (Some e, s') \<Rightarrow> (Some e, s')
         | (None, s') \<Rightarrow> emit (EvError reason errorCode) s')
      else emit (EvError reason errorCode) s)"

text \<open>
  The handler of the request's upgrade event (client); \<open>accept\<close> is the header
  \<^verbatim>\<open>sec-websocket-accept\<close> of the response, \<open>None\<close> when it is not there.
\<close>

definition on_upgrade :: "string option \<Rightarrow> session \<Rightarrow> error option \<times> session" where
  "on_upgrade accept s =
     (if readyState s = CLOSED then
        (case emit EvCloseBare s of
           (None, s') \<Rightarrow> (None, out SockEnd s')
         | (Some e, s') \<Rightarrow> (Some e, s'))
      else if accept = None \<or> accept \<noteq> Some (expectedServerKey s) then
        (case emit (EvError InvalidServerKey Undefined) s of
           (None, s') \<Rightarrow> (None, out SockEnd s')
         | (Some e, s') \<Rightarrow> (Some e, s'))
      else upgrade s)"

section \<open>Runs\<close>

text \<open>
  What can happen to a session: the application calls an operation or one of the closures
  it was handed, the next tick comes, or a collaborator (request, socket, Receiver, Sender,
  ReadStream) fires an event. A closure made by stream is named by its number, a
  ReadStream by its identity. A handler runs only when it has been installed; the upgrade
  event of the request comes once. The application may put a listener on the error event
  and take it away.

  Events may come in any order, which covers every order the event loop produces. A
  callback or a listener is application code: the call is recorded, and what the
  application does inside it is taken as the events that follow the step.
\<close>

datatype event =
    Close jsval jsval
  | Ping jsval "opts option"
  | Pong jsval "opts option"
  | Send jsval optarg "cbid option"
  | Stream optarg "cbid option"
  | Terminate
  | Push nat jsval jsval
  | Tick
  | ReqError error
  | ReqUpgrade "string option"
  | SocketEnd
  | SocketClose
  | RecvText jsval "jsval option"
  | RecvBinary jsval "jsval option"
  | RecvPing jsval "jsval option"
  | RecvClose jsval jsval
  | RecvError error jsval
  | SenderError error
  | StreamData nat jsval
  | StreamEnd nat
  | OnError
  | OffError

fun run_task :: "sender \<Rightarrow> task \<Rightarrow> session \<Rightarrow> error option \<times> session" where
  "run_task sd TUpgrade s = upgrade s"
| "run_task sd TExecQueue s = executeQueueSends sd s"
| "run_task sd (TStreamCb cb n) s = (None, out (CbPush cb n) s)"

fun step :: "sender \<Rightarrow> event \<Rightarrow> session \<Rightarrow> error option \<times> session" where
  "step sd (Close code data) s = close sd code data s"
| "step sd (Ping data options) s = ping sd data options s"
| "step sd (Pong data options) s = pong sd data options s"
| "step sd (Send data options cb) s = send sd data options cb s"
| "step sd (Stream options cb) s = stream options cb s"
| "step sd Terminate s = (None, terminate s)"
| "step sd (Push n data final) s =
     (if n < length (streams s) then push sd n data final s else (None, s))"
| "step sd Tick s =
     (case ticks s of [] \<Rightarrow> (None, s) | t # ts \<Rightarrow> run_task sd t (s\<lparr>ticks := ts\<rparr>))"
| "step sd (ReqError e) s =
     (if isServer s then (None, s) else emit (EvError e Undefined) s)"
| "step sd (ReqUpgrade accept) s =
     (if isServer s \<or> \<not> pending s then (None, s) else on_upgrade accept (s\<lparr>pending := False\<rparr>))"
| "step sd SocketEnd s = (if attached s then socket_gone s else (None, s))"
| "step sd SocketClose s = (if attached s then socket_gone s else (None, s))"
| "step sd (RecvText data flags) s = (if attached s then receiver_text data flags s else (None, s))"
| "step sd (RecvBinary data flags) s = (if attached s then receiver_binary data flags s else (None, s))"
| "step sd (RecvPing data flags) s = (if attached s then receiver_ping sd data flags s else (None, s))"
| "step sd (RecvClose code data) s = (if attached s then receiver_close sd code data s else (None, s))"
| "step sd (RecvError reason errorCode) s =
     (if attached s then receiver_error sd reason errorCode s else (None, s))"
| "step sd (SenderError e) s = (if attached s then emit (EvError e Undefined) s else (None, s))"
| "step sd (StreamData i data) s = on_data sd (filter (\<lambda>h. fst h = i) (readers s)) data s"
| "step sd (StreamEnd i) s = on_end sd (filter (\<lambda>h. fst h = i) (readers s)) s"
| "step sd OnError s = (None, s\<lparr>errorListener := True\<rparr>)"
| "step sd OffError s = (None, s\<lparr>errorListener := False\<rparr>)"

text \<open>An exception that leaves an operation or a handler is observed like everything else.\<close>

definition exec :: "sender \<Rightarrow> event \<Rightarrow> session \<Rightarrow> session" where
  "exec sd e s = (case step sd e s of (None, s') \<Rightarrow> s' | (Some x, s') \<Rightarrow> out (Raised x) s')"

fun run :: "sender \<Rightarrow> event list \<Rightarrow> session \<Rightarrow> session" where
  "run sd [] s = s"
| "run sd (e # es) s = run sd es (exec sd e s)"

section \<open>Notions used to state the properties\<close>

text \<open>
  A client session for the examples: protocol version 13, created at time 0. The identity
  stands in for the platform's base64 and SHA-1; no property depends on what they compute.
\<close>

definition sample_client :: session where
  "sample_client = (case new_client (\<lambda>b. b) (\<lambda>b. b) True 13 0 of Inr s \<Rightarrow> s | Inl e \<Rightarrow> fresh)"

text \<open>The events given to the listeners, among the observations.\<close>

fun is_emit :: "obs \<Rightarrow> bool" where
  "is_emit (Emit e) = True"
| "is_emit _ = False"

fun is_error_obs :: "obs \<Rightarrow> bool" where
  "is_error_obs (Emit e) = is_error e"
| "is_error_obs _ = False"

text \<open>The second session has the trace of the first and, after it, only observations with \<open>P\<close>.\<close>

definition adds :: "(obs \<Rightarrow> bool) \<Rightarrow> session \<Rightarrow> session \<Rightarrow> bool" where
  "adds P s s' \<longleftrightarrow> (\<exists>new. trace s' = trace s @ new \<and> (\<forall>x \<in> set new. P x))"

text \<open>
  What most of the code leaves alone: the role, the ready state, what upgrade installed,
  the pending request and the expected key; and no upgrade is put on the tick list.
\<close>

definition same_control :: "session \<Rightarrow> session \<Rightarrow> bool" where
  "same_control s s' \<longleftrightarrow>
     isServer s' = isServer s \<and> readyState s' = readyState s \<and> attached s' = attached s \<and>
     pending s' = pending s \<and> expectedServerKey s' = expectedServerKey s \<and>
     (\<exists>ts. ticks s' = ticks s @ ts \<and> TUpgrade \<notin> set ts)"

text \<open>
  The send path (send, stream, the queued closures, ping, pong and the closures of a
  stream) changes none of that and gives no event to the listeners.
\<close>

definition keeps :: "session \<Rightarrow> session \<Rightarrow> bool" where
  "keeps s s' \<longleftrightarrow> same_control s s' \<and> adds (\<lambda>x. \<not> is_emit x) s s'"

text \<open>The moves of the ready state that the code makes on purpose.\<close>

fun forward :: "ready \<Rightarrow> ready \<Rightarrow> bool" where
  "forward CONNECTING OPEN = True"
| "forward CONNECTING CLOSED = True"
| "forward OPEN CLOSING = True"
| "forward OPEN CLOSED = True"
| "forward CLOSING CLOSED = True"
| "forward a b = (a = b)"

text \<open>The moves that the specification allows.\<close>

fun spec_move :: "ready \<Rightarrow> ready \<Rightarrow> bool" where
  "spec_move CONNECTING OPEN = True"
| "spec_move CONNECTING CLOSED = True"
| "spec_move OPEN CLOSING = True"
| "spec_move CLOSING CLOSED = True"
| "spec_move a b = (a = b)"

text \<open>
  What holds of every session that a constructor made, whatever happened to it since:
  before upgrade has run the state is Connecting or Closed; the upgrade of the server
  constructor is the oldest waiting tick if it waits at all, and then upgrade has not run;
  a request still waits for its upgrade event only on a client before upgrade.
\<close>

definition settled :: "session \<Rightarrow> bool" where
  "settled s \<longleftrightarrow>
     (\<not> attached s \<longrightarrow> readyState s = CONNECTING \<or> readyState s = CLOSED) \<and>
     TUpgrade \<notin> set (tl (ticks s)) \<and>
     (TUpgrade \<in> set (ticks s) \<longrightarrow> \<not> attached s \<and> isServer s) \<and>
     (pending s \<longrightarrow> \<not> attached s \<and> \<not> isServer s)"






text \<open>
  A queued send of plain data (not a ReadStream), and the call on the Sender that it makes
  when it is replayed on an open session.
\<close>

fun plain :: "deferred \<Rightarrow> bool" where
  "plain (DSend (ReadStream i) options cb) = False"
| "plain (DSend data options cb) = True"
| "plain (DStream options cb) = False"

fun frame_of :: "session \<Rightarrow> deferred \<Rightarrow> enc_call" where
  "frame_of s (DSend data options cb) =
     ESend (if falsy data then JStr [] else data)
       (default_mask s ((case options of OObj o' \<Rightarrow> o' | _ \<Rightarrow> no_opts)\<lparr>fin := JBool True\<rparr>))
       (case options of OFun f \<Rightarrow> Some f | _ \<Rightarrow> cb)"
| "frame_of s (DStream options cb) = ESend Undefined no_opts None"

text \<open>
  The call that a queued closure makes, as an event; and calls made one after the other in
  one turn, up to the first that raises.
\<close>

fun call_of :: "deferred \<Rightarrow> event" where
  "call_of (DSend data options cb) = Send data options cb"
| "call_of (DStream options cb) = Stream options cb"

fun steps :: "sender \<Rightarrow> event list \<Rightarrow> session \<Rightarrow> error option \<times> session" where
  "steps sd [] s = (None, s)"
| "steps sd (e # es) s =
     (case step sd e s of
        (None, s') \<Rightarrow> steps sd es s'
      | (Some x, s') \<Rightarrow> (Some x, s'))"

text \<open>
  What the closures of a queue do when they are called on a session that is not open: each
  gives "not opened" to its callback; the first one without a callback raises, and the
  ones after it are not called.
\<close>

fun refused :: "deferred list \<Rightarrow> obs list \<times> error option" where
  "refused [] = ([], None)"
| "refused (DSend data options cb # ds) =
     (case (case options of OFun f \<Rightarrow> Some f | _ \<Rightarrow> cb) of
        Some c \<Rightarrow> (Cb c (Some NotOpened) # fst (refused ds), snd (refused ds))
      | None \<Rightarrow> ([], Some NotOpened))"
| "refused (DStream options cb # ds) =
     (case (case options of OFun f \<Rightarrow> Some f | _ \<Rightarrow> cb) of
        Some c \<Rightarrow> (Cb c (Some NotOpened) # fst (refused ds), snd (refused ds))
      | None \<Rightarrow> ([], Some CallbackMissing))"

text \<open>
  A client whose request has had its upgrade event: nothing is left that could call upgrade.
\<close>

definition spent :: "session \<Rightarrow> bool" where
  "spent s \<longleftrightarrow> \<not> isServer s \<and> \<not> pending s \<and> TUpgrade \<notin> set (ticks s)"

text \<open>
  A step keeps such a client as it is and adds no open event to the trace.
\<close>

definition lasting :: "session \<Rightarrow> session \<Rightarrow> bool" where
  "lasting s s' \<longleftrightarrow> (spent s \<longrightarrow> spent s' \<and> adds (\<lambda>x. x \<noteq> Emit EvOpen) s s')"

text \<open>
  Between two sessions: no error event was given to the listeners and the queue is as it
  was, or the queue is gone.
\<close>

definition mild :: "session \<Rightarrow> session \<Rightarrow> bool" where
  "mild s s' \<longleftrightarrow> (adds (\<lambda>x. \<not> is_error_obs x) s s' \<and> queue s' = queue s) \<or> queue s' = None"

text \<open>A function of the session that does the same when the queue is taken away first.\<close>

definition blind :: "(session \<Rightarrow> error option \<times> session) \<Rightarrow> session \<Rightarrow> bool" where
  "blind f s \<longleftrightarrow> f (s\<lparr>queue := None\<rparr>) = (fst (f s), (snd (f s))\<lparr>queue := None\<rparr>)"

text \<open>
  Sessions for the examples. A server that has been closed while ReadStream 1 was being
  sent, with three sends waiting on the queue, the second of them without a callback:
\<close>

definition closed_mid_stream :: session where
  "closed_mid_stream =
     run accepting [Tick, Send (ReadStream 1) OAbsent (Some 7), Send (JStr ''X'') OAbsent (Some 8),
       Send (JStr ''Y'') OAbsent None, Send (JStr ''Z'') OAbsent (Some 9),
       Close (JNum 1000) Undefined] new_server"

text \<open>
  An open server with an error listener, in the middle of a stream call, with one send
  waiting on the queue:
\<close>

definition streaming_server :: session where
  "streaming_server =
     run accepting [Tick, OnError, Stream OAbsent (Some 1), Send (JStr ''X'') OAbsent None] new_server"

text \<open>
  An open server in the middle of a stream call, with a send, a stream call and another
  send waiting on the queue:
\<close>

definition waiting_server :: session where
  "waiting_server =
     run accepting [Tick, Stream OAbsent (Some 1), Send (JStr ''X'') OAbsent None,
       Stream OAbsent (Some 2), Send (JStr ''Y'') OAbsent None] new_server"

section \<open>Properties\<close>

text \<open>The definitions that evaluate a run on a concrete input.\<close>

lemmas model_defs = new_server_def fresh_def upgrade_def emit_def out_def accepting_def call_def
  close_def terminate_def nextTick_def socket_gone_def js_or_def exec_def send_def stream_def
  startQueue_def sendStream_def default_mask_def no_opts_def ping_def pong_def push_def
  executeQueueSends_def not_opened_def sendStream_data_def sendStream_end_def
  receiver_ping_def receiver_close_def receiver_error_def receiver_text_def receiver_binary_def
  binary_of_def on_upgrade_def Let_def

lemma sample_client_eq:
  "sample_client = fresh\<lparr>pending := True, key := ''13-0'',
     expectedServerKey := ''13-0258EAFA5-E914-47DA-95CA-C5AB0DC85B11''\<rparr>"
  by (simp add: sample_client_def new_client_def session_key_def accept_of_def GUID_def Let_def
      decimal.simps digit_def)

subsection \<open>emit\<close>

lemma emit_plain: "\<not> is_error e \<Longrightarrow> emit e s = (None, out (Emit e) s)"
  by (cases e) (simp_all add: emit_def)

lemma emit_error:
  "emit (EvError x c) s =
     (if errorListener s then (None, out (Emit (EvError x c)) (s\<lparr>queue := None\<rparr>))
      else (Some (thrown x), s\<lparr>queue := None\<rparr>))"
  by (simp add: emit_def)

subsection \<open>adds, same_control, keeps\<close>

lemma adds_refl: "adds P s s"
  by (simp add: adds_def)

lemma adds_trans: "adds P s s' \<Longrightarrow> adds P s' s'' \<Longrightarrow> adds P s s''"
  unfolding adds_def
proof -
  assume "\<exists>new. trace s' = trace s @ new \<and> (\<forall>x\<in>set new. P x)"
    and "\<exists>new. trace s'' = trace s' @ new \<and> (\<forall>x\<in>set new. P x)"
  then obtain n1 n2 where "trace s' = trace s @ n1" "\<forall>x\<in>set n1. P x"
    "trace s'' = trace s' @ n2" "\<forall>x\<in>set n2. P x" by blast
  then have "trace s'' = trace s @ (n1 @ n2) \<and> (\<forall>x\<in>set (n1 @ n2). P x)" by auto
  then show "\<exists>new. trace s'' = trace s @ new \<and> (\<forall>x\<in>set new. P x)" by blast
qed

lemma adds_mono: "adds P s s' \<Longrightarrow> (\<And>x. P x \<Longrightarrow> Q x) \<Longrightarrow> adds Q s s'"
  unfolding adds_def by blast

lemma adds_out: "P x \<Longrightarrow> adds P s (out x s)"
  by (simp add: adds_def out_def)

lemma same_control_refl: "same_control s s"
  by (simp add: same_control_def)

lemma same_control_trans: "same_control s s' \<Longrightarrow> same_control s' s'' \<Longrightarrow> same_control s s''"
  unfolding same_control_def by auto

lemma keeps_refl: "keeps s s"
  by (simp add: keeps_def adds_refl same_control_refl)

lemma keeps_trans: "keeps s s' \<Longrightarrow> keeps s' s'' \<Longrightarrow> keeps s s''"
  unfolding keeps_def using adds_trans same_control_trans by blast

lemma keeps_out: "\<not> is_emit x \<Longrightarrow> keeps s (out x s)"
  by (simp add: keeps_def adds_out) (simp add: same_control_def out_def)

lemma keeps_queue: "keeps s (s\<lparr>queue := q\<rparr>)"
  by (simp add: keeps_def adds_def same_control_def)

lemma keeps_readers: "keeps s (s\<lparr>readers := r\<rparr>)"
  by (simp add: keeps_def adds_def same_control_def)

lemma keeps_streams: "keeps s (s\<lparr>streams := r\<rparr>)"
  by (simp add: keeps_def adds_def same_control_def)

lemma keeps_nextTick: "t \<noteq> TUpgrade \<Longrightarrow> keeps s (nextTick t s)"
  by (simp add: keeps_def adds_def same_control_def nextTick_def)

lemma keeps_call: "keeps s (snd (call sd c s))"
  by (simp add: call_def keeps_out)

lemma keeps_startQueue: "keeps s (startQueue s)"
  by (simp add: startQueue_def keeps_queue)

lemma keeps_ping: "keeps s (snd (ping sd data options s))"
  by (simp add: ping_def keeps_refl keeps_call)

lemma keeps_pong: "keeps s (snd (pong sd data options s))"
  by (simp add: pong_def keeps_refl keeps_call)

lemma keeps_sendStream: "keeps s (sendStream i options cb s)"
  unfolding sendStream_def using keeps_trans [OF keeps_readers keeps_out] by simp

lemma keeps_send: "keeps s (snd (send sd data options cb s))"
proof -
  have a: "\<And>i options k. keeps s (sendStream i options k (startQueue s))"
    using keeps_trans [OF keeps_startQueue keeps_sendStream] by blast
  show ?thesis
    by (auto simp: send_def Let_def keeps_refl keeps_out keeps_queue keeps_call a
        split: option.splits jsval.splits)
qed

lemma keeps_stream: "keeps s (snd (stream options cb s))"
proof -
  have a: "\<And>t r. t \<noteq> TUpgrade \<Longrightarrow> keeps s (nextTick t ((startQueue s)\<lparr>streams := r\<rparr>))"
    using keeps_trans [OF keeps_trans [OF keeps_startQueue keeps_streams] keeps_nextTick] by blast
  show ?thesis
    by (auto simp: stream_def Let_def keeps_refl keeps_out keeps_queue a split: option.splits)
qed

lemma keeps_invoke: "keeps s (snd (invoke sd d s))"
  by (cases d) (simp_all add: keeps_send keeps_stream)

lemma keeps_replay: "keeps s (snd (replay sd q s))"
proof (induction q arbitrary: s)
  case Nil
  show ?case by (simp add: keeps_refl)
next
  case (Cons d q)
  obtain r s' where inv: "invoke sd d s = (r, s')" by (cases "invoke sd d s")
  with keeps_invoke [of s sd d] have k: "keeps s s'" by simp
  show ?case
  proof (cases r)
    case None
    with inv keeps_trans [OF k Cons.IH [of s']] show ?thesis by simp
  next
    case (Some e)
    with inv k show ?thesis by simp
  qed
qed

lemma keeps_executeQueueSends: "keeps s (snd (executeQueueSends sd s))"
proof (cases "queue s")
  case None
  then show ?thesis by (simp add: executeQueueSends_def keeps_refl)
next
  case (Some q)
  with keeps_trans [OF keeps_queue [of s None] keeps_replay [of "s\<lparr>queue := None\<rparr>" sd q]]
  show ?thesis
    by (simp add: executeQueueSends_def)
qed

lemma keeps_push: "keeps s (snd (push sd n data final s))"
proof -
  obtain options cb where oc: "streams s ! n = (options, cb)" by (cases "streams s ! n")
  show ?thesis
  proof (cases "readyState s = OPEN")
    case False
    with oc show ?thesis by (simp add: push_def keeps_out)
  next
    case True
    define o1 where "o1 = options\<lparr>fin := JBool (final = JBool True)\<rparr>"
    define s1 where "s1 = out (Enc (ESend data o1 None)) (s\<lparr>streams := (streams s)[n := (o1, cb)]\<rparr>)"
    have k1: "keeps s s1"
      unfolding s1_def using keeps_trans [OF keeps_streams keeps_out] by simp
    have k2: "\<And>x. \<not> is_emit x \<Longrightarrow> keeps s (out x s1)"
      using keeps_trans [OF k1 keeps_out] by blast
    have k3: "\<And>t. t \<noteq> TUpgrade \<Longrightarrow> keeps s (nextTick t s1)"
      using keeps_trans [OF k1 keeps_nextTick] by blast
    obtain r s2 where ex: "executeQueueSends sd s1 = (r, s2)" by (cases "executeQueueSends sd s1")
    with keeps_executeQueueSends [of s1 sd] have "keeps s1 s2" by simp
    with k1 have k4: "keeps s s2" by (rule keeps_trans)
    have k5: "\<And>x. \<not> is_emit x \<Longrightarrow> keeps s (out x s2)"
      using keeps_trans [OF k4 keeps_out] by blast
    from True oc ex show ?thesis
      by (auto simp: push_def Let_def call_def o1_def [symmetric] s1_def [symmetric] k2 k3 k4 k5
          split: option.splits)
  qed
qed

lemma keeps_resume: "keeps s (resume k err s)"
proof (cases k)
  case (SendDone cb)
  have "\<And>x. \<not> is_emit x \<Longrightarrow> keeps s (out x (nextTick TExecQueue s))"
    using keeps_trans [OF keeps_nextTick keeps_out] by blast
  with SendDone show ?thesis by (simp add: keeps_nextTick Let_def split: option.splits)
qed

subsection \<open>emit and the handlers of a ReadStream\<close>

lemma emit_same_control: "same_control s (snd (emit e s))"
  by (cases e) (simp_all add: emit_def Let_def same_control_def out_def)

lemma emit_adds: "P (Emit e) \<Longrightarrow> adds P s (snd (emit e s))"
  by (cases e) (auto simp: emit_def Let_def adds_def out_def)

lemma sendStream_data_cases:
  "keeps s (snd (sendStream_data sd options cb data s)) \<or>
   sendStream_data sd options cb data s = emit (EvError NotOpened Undefined) s"
  by (auto simp: sendStream_data_def not_opened_def keeps_resume keeps_call split: option.splits)

lemma sendStream_end_cases:
  "keeps s (snd (sendStream_end sd options cb s)) \<or>
   sendStream_end sd options cb s = emit (EvError NotOpened Undefined) s"
proof (cases "readyState s = OPEN")
  case False
  then show ?thesis
    by (auto simp: sendStream_end_def not_opened_def keeps_resume split: option.splits)
next
  case True
  define c where "c = ESend Null (options\<lparr>fin := JBool True\<rparr>) None"
  have k1: "keeps s (out (Enc c) s)" by (simp add: keeps_out)
  have k2: "\<And>k. keeps s (resume k None (out (Enc c) s))"
    using keeps_trans [OF k1 keeps_resume] by blast
  from True show ?thesis
    by (auto simp: sendStream_end_def call_def c_def [symmetric] k1 k2 split: option.splits)
qed

text \<open>
  A relation between sessions that is reflexive and transitive and holds across every
  handler, holds across the whole event.
\<close>

lemma on_data_rel:
  assumes refl: "\<And>a. R a a" and trans: "\<And>a b c. R a b \<Longrightarrow> R b c \<Longrightarrow> R a c"
    and one: "\<And>options cb a. R a (snd (sendStream_data sd options cb data a))"
  shows "R s (snd (on_data sd hs data s))"
proof (induction hs arbitrary: s)
  case Nil
  show ?case by (simp add: refl)
next
  case (Cons h hs)
  obtain i options cb where h: "h = (i, options, cb)" by (cases h)
  obtain r s' where x: "sendStream_data sd options cb data s = (r, s')"
    by (cases "sendStream_data sd options cb data s")
  with one [of s options cb] have r1: "R s s'" by simp
  show ?case
  proof (cases r)
    case None
    with h x trans [OF r1 Cons.IH [of s']] show ?thesis by simp
  next
    case (Some e)
    with h x r1 show ?thesis by simp
  qed
qed

lemma on_end_rel:
  assumes refl: "\<And>a. R a a" and trans: "\<And>a b c. R a b \<Longrightarrow> R b c \<Longrightarrow> R a c"
    and one: "\<And>options cb a. R a (snd (sendStream_end sd options cb a))"
  shows "R s (snd (on_end sd hs s))"
proof (induction hs arbitrary: s)
  case Nil
  show ?case by (simp add: refl)
next
  case (Cons h hs)
  obtain i options cb where h: "h = (i, options, cb)" by (cases h)
  obtain r s' where x: "sendStream_end sd options cb s = (r, s')"
    by (cases "sendStream_end sd options cb s")
  with one [of s options cb] have r1: "R s s'" by simp
  show ?case
  proof (cases r)
    case None
    with h x trans [OF r1 Cons.IH [of s']] show ?thesis by simp
  next
    case (Some e)
    with h x r1 show ?thesis by simp
  qed
qed

subsection \<open>close\<close>

text \<open>
  C4, as the code has it. close(code, reason) by state: in Closing it does nothing; in
  Connecting it sets the state to Closed and nothing reaches the Sender; in Closed it raises
  "not opened"; in Open it sets the state to Closing, records the close code and the close
  message and makes one close call on the Sender. When that call returns it terminates:
  the socket, if the session still holds it, is ended right after the close frame. When
  that call raises, the socket is neither ended nor let go: the exception is caught and
  emitted as an error event, which the platform throws to the caller of close when no
  error listener is registered.
\<close>

theorem close_per_state:
  "(readyState s = CLOSING \<longrightarrow> close sd code data s = (None, s)) \<and>
   (readyState s = CONNECTING \<longrightarrow> close sd code data s = (None, s\<lparr>readyState := CLOSED\<rparr>)) \<and>
   (readyState s = CLOSED \<longrightarrow> close sd code data s = (Some NotOpened, s)) \<and>
   (readyState s = OPEN \<and> sd (EClose code data (\<not> isServer s)) = None \<longrightarrow>
      close sd code data s =
        (None, s\<lparr>readyState := CLOSING, closeCode := code, closeMessage := data, socket := False,
                 trace := trace s @ Enc (EClose code data (\<not> isServer s)) #
                            (if socket s then [SockEnd] else [])\<rparr>)) \<and>
   (readyState s = OPEN \<and> sd (EClose code data (\<not> isServer s)) = Some e \<longrightarrow>
      close sd code data s =
        (if errorListener s then
           (None, s\<lparr>readyState := CLOSING, closeCode := code, closeMessage := data, queue := None,
                    trace := trace s @ [Enc (EClose code data (\<not> isServer s)),
                                        Emit (EvError e Undefined)]\<rparr>)
         else
           (Some (thrown e),
            s\<lparr>readyState := CLOSING, closeCode := code, closeMessage := data, queue := None,
              trace := trace s @ [Enc (EClose code data (\<not> isServer s))]\<rparr>)))"
  by (simp add: close_def call_def terminate_def emit_error out_def)

theorem close_per_state_witness:
  "readyState (run accepting [Tick, Close (JNum 1000) Undefined] new_server) = CLOSING \<and>
   close accepting (JNum 1001) (JStr ''bye'') (run accepting [Tick, Close (JNum 1000) Undefined] new_server)
     = (None, run accepting [Tick, Close (JNum 1000) Undefined] new_server) \<and>
   readyState new_server = CONNECTING \<and>
   close accepting (JNum 1001) (JStr ''bye'') new_server = (None, new_server\<lparr>readyState := CLOSED\<rparr>) \<and>
   readyState (run accepting [Tick, SocketEnd] new_server) = CLOSED \<and>
   close accepting (JNum 1001) (JStr ''bye'') (run accepting [Tick, SocketEnd] new_server)
     = (Some NotOpened, run accepting [Tick, SocketEnd] new_server) \<and>
   readyState (run accepting [Tick] new_server) = OPEN \<and>
   accepting (EClose (JNum 1001) (JStr ''bye'') (\<not> isServer (run accepting [Tick] new_server))) = None \<and>
   close accepting (JNum 1001) (JStr ''bye'') (run accepting [Tick] new_server)
     = (None, (run accepting [Tick] new_server)\<lparr>readyState := CLOSING, closeCode := JNum 1001,
          closeMessage := JStr ''bye'', socket := False,
          trace := [Emit EvOpen, Enc (EClose (JNum 1001) (JStr ''bye'') False), SockEnd]\<rparr>) \<and>
   close_rejecting (EClose (JNum 7) (JStr ''bye'') (\<not> isServer (run accepting [Tick, OnError] new_server)))
     = Some (External ''invalid code'') \<and>
   close close_rejecting (JNum 7) (JStr ''bye'') (run accepting [Tick, OnError] new_server)
     = (None, (run accepting [Tick, OnError] new_server)\<lparr>readyState := CLOSING, closeCode := JNum 7,
          closeMessage := JStr ''bye'', queue := None,
          trace := [Emit EvOpen, Enc (EClose (JNum 7) (JStr ''bye'') False),
                    Emit (EvError (External ''invalid code'') Undefined)]\<rparr>) \<and>
   close close_rejecting (JNum 7) (JStr ''bye'') (run accepting [Tick] new_server)
     = (Some (External ''invalid code''),
        (run accepting [Tick] new_server)\<lparr>readyState := CLOSING, closeCode := JNum 7,
          closeMessage := JStr ''bye'', queue := None,
          trace := [Emit EvOpen, Enc (EClose (JNum 7) (JStr ''bye'') False)]\<rparr>)"
  using close_per_state [where s = "run accepting [Tick, Close (JNum 1000) Undefined] new_server"
      and sd = accepting and code = "JNum 1001" and data = "JStr ''bye''"]
    close_per_state [where s = new_server and sd = accepting and code = "JNum 1001" and data = "JStr ''bye''"]
    close_per_state [where s = "run accepting [Tick, SocketEnd] new_server"
      and sd = accepting and code = "JNum 1001" and data = "JStr ''bye''"]
    close_per_state [where s = "run accepting [Tick] new_server"
      and sd = accepting and code = "JNum 1001" and data = "JStr ''bye''"]
    close_per_state [where s = "run accepting [Tick, OnError] new_server"
      and sd = close_rejecting and code = "JNum 7" and data = "JStr ''bye''"
      and e = "External ''invalid code''"]
    close_per_state [where s = "run accepting [Tick] new_server"
      and sd = close_rejecting and code = "JNum 7" and data = "JStr ''bye''"
      and e = "External ''invalid code''"]
  by (simp add: model_defs close_rejecting_def)

text \<open>
  C4 as stated fails in its last part when the Sender raises on the close call: the session
  is left in Closing with its socket, and the socket is not ended.
\<close>

theorem close_sender_raises_counterexample:
  "readyState (run close_rejecting [Tick, OnError] new_server) = OPEN \<and>
   socket (run close_rejecting [Tick, OnError] new_server) \<and>
   readyState (run close_rejecting [Tick, OnError, Close (JNum 7) (JStr ''bye'')] new_server) = CLOSING \<and>
   socket (run close_rejecting [Tick, OnError, Close (JNum 7) (JStr ''bye'')] new_server) \<and>
   trace (run close_rejecting [Tick, OnError, Close (JNum 7) (JStr ''bye'')] new_server) =
     [Emit EvOpen, Enc (EClose (JNum 7) (JStr ''bye'') False),
      Emit (EvError (External ''invalid code'') Undefined)] \<and>
   SockEnd \<notin> set (trace (run close_rejecting [Tick, OnError, Close (JNum 7) (JStr ''bye'')] new_server))"
  by (simp add: model_defs close_rejecting_def)

subsection \<open>terminate\<close>

text \<open>
  C9, as the code has it. terminate never raises. When the session holds a socket it ends
  the socket and forgets it, and leaves the ready state as it is; the state becomes Closed
  when the socket's end or close event arrives. Without a socket, Connecting becomes Closed
  and any other state stays.
\<close>

theorem terminate_effect:
  "fst (step sd Terminate s) = None \<and>
   (socket s \<longrightarrow> terminate s = s\<lparr>socket := False, trace := trace s @ [SockEnd]\<rparr>) \<and>
   (\<not> socket s \<and> readyState s = CONNECTING \<longrightarrow> terminate s = s\<lparr>readyState := CLOSED\<rparr>) \<and>
   (\<not> socket s \<and> readyState s \<noteq> CONNECTING \<longrightarrow> terminate s = s) \<and>
   (attached s \<longrightarrow> readyState (exec sd SocketEnd (terminate s)) = CLOSED \<and>
                  readyState (exec sd SocketClose (terminate s)) = CLOSED)"
  by (simp add: terminate_def out_def exec_def socket_gone_def emit_plain)

theorem terminate_effect_witness:
  "socket (run accepting [Tick] new_server) \<and>
   terminate (run accepting [Tick] new_server) =
     (run accepting [Tick] new_server)\<lparr>socket := False, trace := [Emit EvOpen, SockEnd]\<rparr> \<and>
   \<not> socket new_server \<and> readyState new_server = CONNECTING \<and>
   terminate new_server = new_server\<lparr>readyState := CLOSED\<rparr> \<and>
   \<not> socket (run accepting [Tick, Terminate] new_server) \<and>
   readyState (run accepting [Tick, Terminate] new_server) \<noteq> CONNECTING \<and>
   terminate (run accepting [Tick, Terminate] new_server) = run accepting [Tick, Terminate] new_server \<and>
   attached (run accepting [Tick] new_server) \<and>
   readyState (exec accepting SocketEnd (terminate (run accepting [Tick] new_server))) = CLOSED"
  using terminate_effect [where sd = accepting and s = "run accepting [Tick] new_server"]
    terminate_effect [where sd = accepting and s = new_server]
    terminate_effect [where sd = accepting and s = "run accepting [Tick, Terminate] new_server"]
  by (simp add: model_defs)

text \<open>
  C9 as stated fails: terminate on an open session ends the socket and the state is still
  Open when it returns.
\<close>

theorem terminate_open_counterexample:
  "readyState (run accepting [Tick] new_server) = OPEN \<and>
   readyState (run accepting [Tick, Terminate] new_server) = OPEN \<and>
   trace (run accepting [Tick, Terminate] new_server) = [Emit EvOpen, SockEnd]"
  by (simp add: model_defs)

subsection \<open>send with falsy data\<close>

text \<open>
  C10, as the code has it. send in state Open with falsy data replaces the data by the empty
  string. With no queue the Sender gets exactly one send call, with the empty string and
  fin = true, and send raises only what that call raises. With a queue present nothing
  reaches the Sender: the call, with the empty string as data, is put at the end of the queue.
\<close>

theorem send_falsy:
  "readyState s = OPEN \<and> falsy data \<longrightarrow>
     (let cb1 = (case options of OFun f \<Rightarrow> Some f | _ \<Rightarrow> cb);
          frame = ESend (JStr [])
                    (default_mask s ((case options of OObj o' \<Rightarrow> o' | _ \<Rightarrow> no_opts)\<lparr>fin := JBool True\<rparr>)) cb1
      in (queue s = None \<longrightarrow> send sd data options cb s = (sd frame, s\<lparr>trace := trace s @ [Enc frame]\<rparr>)) \<and>
         (\<forall>q. queue s = Some q \<longrightarrow>
            send sd data options cb s =
              (None, s\<lparr>queue := Some (q @ [DSend (JStr [])
                         (case options of OFun f \<Rightarrow> OObj no_opts | _ \<Rightarrow> options) cb1])\<rparr>)))"
  by (auto simp: send_def call_def out_def Let_def split: optarg.splits)

theorem send_falsy_witness:
  "readyState (run accepting [Tick] new_server) = OPEN \<and> falsy Undefined \<and>
   queue (run accepting [Tick] new_server) = None \<and>
   send accepting Undefined OAbsent None (run accepting [Tick] new_server) =
     (None, (run accepting [Tick] new_server)\<lparr>trace := [Emit EvOpen,
        Enc (ESend (JStr []) \<lparr>mask = JBool False, binary = Undefined, fin = JBool True\<rparr> None)]\<rparr>) \<and>
   readyState (run accepting [Tick, Stream OAbsent (Some 1)] new_server) = OPEN \<and> falsy (JNum 0) \<and>
   queue (run accepting [Tick, Stream OAbsent (Some 1)] new_server) = Some [] \<and>
   send accepting (JNum 0) OAbsent None (run accepting [Tick, Stream OAbsent (Some 1)] new_server) =
     (None, (run accepting [Tick, Stream OAbsent (Some 1)] new_server)\<lparr>queue :=
        Some [DSend (JStr []) OAbsent None]\<rparr>)"
  using send_falsy [where s = "run accepting [Tick] new_server" and data = Undefined
      and options = OAbsent and cb = None and sd = accepting]
    send_falsy [where s = "run accepting [Tick, Stream OAbsent (Some 1)] new_server" and data = "JNum 0"
      and options = OAbsent and cb = None and sd = accepting]
  by (simp add: model_defs)

text \<open>
  C10 as stated fails while a stream holds the queue: send(undefined) in state Open emits
  no frame.
\<close>

theorem send_falsy_queued_counterexample:
  "readyState (run accepting [Tick, Stream OAbsent (Some 1)] new_server) = OPEN \<and>
   trace (run accepting [Tick, Stream OAbsent (Some 1)] new_server) = [Emit EvOpen] \<and>
   trace (run accepting [Tick, Stream OAbsent (Some 1), Send Undefined OAbsent None] new_server) = [Emit EvOpen]"
  by (simp add: model_defs)

subsection \<open>The automatic pong\<close>

text \<open>
  C8, as the code has it. On a ping of the Receiver in state Open the session calls pong on
  the Sender with the same payload, mask = not isServer and binary = (flags.binary === true),
  and after that call has returned it emits the ping event. In any other state the handler
  raises "not opened": no pong, no ping event.
\<close>

theorem auto_pong:
  "attached s \<longrightarrow>
     (readyState s = OPEN \<longrightarrow>
        (let p = EPong data \<lparr>mask = JBool (\<not> isServer s),
                     binary = JBool (binary_of flags = JBool True), fin = Undefined\<rparr>
         in step sd (RecvPing data flags) s =
              (sd p, s\<lparr>trace := trace s @ Enc p #
                         (if sd p = None then [Emit (EvPing data (binary_of flags))] else [])\<rparr>))) \<and>
     (readyState s \<noteq> OPEN \<longrightarrow> step sd (RecvPing data flags) s = (Some NotOpened, s))"
  by (auto simp: receiver_ping_def pong_def call_def out_def emit_plain default_mask_def Let_def)

theorem auto_pong_witness:
  "attached (run accepting [Tick] new_server) \<and> readyState (run accepting [Tick] new_server) = OPEN \<and>
   step accepting (RecvPing (JBuffer [222, 173]) None) (run accepting [Tick] new_server) =
     (None, (run accepting [Tick] new_server)\<lparr>trace := [Emit EvOpen,
        Enc (EPong (JBuffer [222, 173]) \<lparr>mask = JBool False, binary = JBool False, fin = Undefined\<rparr>),
        Emit (EvPing (JBuffer [222, 173]) Undefined)]\<rparr>) \<and>
   attached (run accepting [Tick, Close (JNum 1000) Undefined] new_server) \<and>
   readyState (run accepting [Tick, Close (JNum 1000) Undefined] new_server) \<noteq> OPEN \<and>
   step accepting (RecvPing (JBuffer [222, 173]) None) (run accepting [Tick, Close (JNum 1000) Undefined] new_server) =
     (Some NotOpened, run accepting [Tick, Close (JNum 1000) Undefined] new_server)"
  using auto_pong [where s = "run accepting [Tick] new_server" and data = "JBuffer [222, 173]"
      and flags = None and sd = accepting]
    auto_pong [where s = "run accepting [Tick, Close (JNum 1000) Undefined] new_server"
      and data = "JBuffer [222, 173]" and flags = None and sd = accepting]
  by (simp add: model_defs)

text \<open>
  C8 as stated fails for a ping that the Receiver decodes after close() has been called:
  the state is Closing, the handler raises, and no pong is made.
\<close>

theorem ping_while_closing_counterexample:
  "readyState (run accepting [Tick, Close (JNum 1000) Undefined] new_server) = CLOSING \<and>
   trace (run accepting [Tick, Close (JNum 1000) Undefined] new_server) =
     [Emit EvOpen, Enc (EClose (JNum 1000) Undefined False), SockEnd] \<and>
   trace (run accepting [Tick, Close (JNum 1000) Undefined, RecvPing (JBuffer [222, 173]) None] new_server) =
     [Emit EvOpen, Enc (EClose (JNum 1000) Undefined False), SockEnd, Raised NotOpened]"
  by (simp add: model_defs)

subsection \<open>A stream that finds the session no longer open\<close>

lemma invoke_refused:
  "readyState s \<noteq> OPEN \<Longrightarrow>
     invoke sd d s = (snd (refused [d]), s\<lparr>trace := trace s @ fst (refused [d])\<rparr>)"
proof (cases d)
  case (DSend data options cb)
  assume "readyState s \<noteq> OPEN"
  with DSend show ?thesis
    by (cases options; cases cb) (simp_all add: send_def out_def Let_def)
next
  case (DStream options cb)
  assume "readyState s \<noteq> OPEN"
  with DStream show ?thesis
    by (cases options; cases cb) (simp_all add: stream_def out_def Let_def)
qed

lemma refused_Cons:
  "refused (d # q) =
     (case snd (refused [d]) of
        None \<Rightarrow> (fst (refused [d]) @ fst (refused q), snd (refused q))
      | Some e \<Rightarrow> (fst (refused [d]), Some e))"
proof (cases d)
  case (DSend data options cb)
  then show ?thesis by (cases options; cases cb) simp_all
next
  case (DStream options cb)
  then show ?thesis by (cases options; cases cb) simp_all
qed

lemma replay_refused:
  "readyState s \<noteq> OPEN \<Longrightarrow>
     replay sd q s = (snd (refused q), s\<lparr>trace := trace s @ fst (refused q)\<rparr>)"
proof (induction q arbitrary: s)
  case Nil
  then show ?case by simp
next
  case (Cons d q)
  define s' where "s' = s\<lparr>trace := trace s @ fst (refused [d])\<rparr>"
  from Cons.prems have inv: "invoke sd d s = (snd (refused [d]), s')"
    by (simp add: invoke_refused s'_def)
  from Cons.prems have "readyState s' \<noteq> OPEN" by (simp add: s'_def)
  from Cons.IH [OF this]
  have ih: "replay sd q s' = (snd (refused q), s'\<lparr>trace := trace s' @ fst (refused q)\<rparr>)" .
  show ?case
  proof (cases "snd (refused [d])")
    case None
    with inv ih show ?thesis
      by (simp add: refused_Cons [of d q] s'_def)
  next
    case (Some e)
    with inv show ?thesis
      by (simp add: refused_Cons [of d q] s'_def)
  qed
qed

lemma closed_mid_stream_eq:
  "closed_mid_stream =
     \<lparr>isServer = True, readyState = CLOSING, socket = False, attached = True,
      pending = False, key = [], expectedServerKey = [],
      queue = Some [DSend (JStr ''X'') OAbsent (Some 8), DSend (JStr ''Y'') OAbsent None,
                    DSend (JStr ''Z'') OAbsent (Some 9)],
      closeCode = JNum 1000, closeMessage = Undefined, errorListener = False,
      readers = [(1, \<lparr>mask = JBool False, binary = Undefined, fin = JBool True\<rparr>,
                  Some (SendDone (Some 7)))],
      streams = [], ticks = [],
      trace = [Emit EvOpen,
        StreamOn 1 \<lparr>mask = JBool False, binary = Undefined, fin = JBool True\<rparr> (Some (SendDone (Some 7))),
        Enc (EClose (JNum 1000) Undefined False), SockEnd]\<rparr>"
  by code_simp

text \<open>
  C5, as the code has it. When a chunk or the end of the ReadStream finds a ready state
  other than Open, the callback that send gave to sendStream is called with "not opened":
  it puts executeQueueSends on the next tick and calls the callback of the send with the
  error. No error event is emitted and nothing is raised. The queue is therefore released
  on the next tick: it is removed, and its closures are called in order on a session that
  is not open, so each gives "not opened" to its callback, up to the first one that has
  no callback, which raises and ends the release.
\<close>

theorem stream_chunk_not_open:
  "readyState s \<noteq> OPEN \<longrightarrow>
     sendStream_data sd options (Some (SendDone (Some c))) data s =
       (None, s\<lparr>ticks := ticks s @ [TExecQueue], trace := trace s @ [Cb c (Some NotOpened)]\<rparr>) \<and>
     sendStream_end sd options (Some (SendDone (Some c))) s =
       (None, s\<lparr>ticks := ticks s @ [TExecQueue], trace := trace s @ [Cb c (Some NotOpened)]\<rparr>) \<and>
     (filter (\<lambda>h. fst h = i) (readers s) = [(i, options, Some (SendDone (Some c)))] \<longrightarrow>
        step sd (StreamData i data) s =
          (None, s\<lparr>ticks := ticks s @ [TExecQueue], trace := trace s @ [Cb c (Some NotOpened)]\<rparr>) \<and>
        step sd (StreamEnd i) s =
          (None, s\<lparr>ticks := ticks s @ [TExecQueue], trace := trace s @ [Cb c (Some NotOpened)]\<rparr>)) \<and>
     (\<forall>q. queue s = Some q \<longrightarrow>
        executeQueueSends sd s =
          (snd (refused q), s\<lparr>queue := None, trace := trace s @ fst (refused q)\<rparr>))"
proof
  assume closed: "readyState s \<noteq> OPEN"
  have d: "sendStream_data sd options (Some (SendDone (Some c))) data s =
       (None, s\<lparr>ticks := ticks s @ [TExecQueue], trace := trace s @ [Cb c (Some NotOpened)]\<rparr>)"
    using closed by (simp add: sendStream_data_def not_opened_def nextTick_def out_def)
  have e: "sendStream_end sd options (Some (SendDone (Some c))) s =
       (None, s\<lparr>ticks := ticks s @ [TExecQueue], trace := trace s @ [Cb c (Some NotOpened)]\<rparr>)"
    using closed by (simp add: sendStream_end_def not_opened_def nextTick_def out_def)
  have r: "executeQueueSends sd s =
          (snd (refused q), s\<lparr>queue := None, trace := trace s @ fst (refused q)\<rparr>)"
    if "queue s = Some q" for q
  proof -
    from closed have "readyState (s\<lparr>queue := None\<rparr>) \<noteq> OPEN" by simp
    from replay_refused [OF this, of sd q] that show ?thesis
      by (simp add: executeQueueSends_def)
  qed
  from d e r show "sendStream_data sd options (Some (SendDone (Some c))) data s =
       (None, s\<lparr>ticks := ticks s @ [TExecQueue], trace := trace s @ [Cb c (Some NotOpened)]\<rparr>) \<and>
     sendStream_end sd options (Some (SendDone (Some c))) s =
       (None, s\<lparr>ticks := ticks s @ [TExecQueue], trace := trace s @ [Cb c (Some NotOpened)]\<rparr>) \<and>
     (filter (\<lambda>h. fst h = i) (readers s) = [(i, options, Some (SendDone (Some c)))] \<longrightarrow>
        step sd (StreamData i data) s =
          (None, s\<lparr>ticks := ticks s @ [TExecQueue], trace := trace s @ [Cb c (Some NotOpened)]\<rparr>) \<and>
        step sd (StreamEnd i) s =
          (None, s\<lparr>ticks := ticks s @ [TExecQueue], trace := trace s @ [Cb c (Some NotOpened)]\<rparr>)) \<and>
     (\<forall>q. queue s = Some q \<longrightarrow>
        executeQueueSends sd s =
          (snd (refused q), s\<lparr>queue := None, trace := trace s @ fst (refused q)\<rparr>))"
    by simp
qed

theorem stream_chunk_not_open_witness:
  "readyState closed_mid_stream \<noteq> OPEN \<and>
   filter (\<lambda>h. fst h = 1) (readers closed_mid_stream) =
     [(1, \<lparr>mask = JBool False, binary = Undefined, fin = JBool True\<rparr>, Some (SendDone (Some 7)))] \<and>
   queue closed_mid_stream =
     Some [DSend (JStr ''X'') OAbsent (Some 8), DSend (JStr ''Y'') OAbsent None,
           DSend (JStr ''Z'') OAbsent (Some 9)] \<and>
   step accepting (StreamData 1 (JStr ''hel'')) closed_mid_stream =
     (None, closed_mid_stream\<lparr>ticks := [TExecQueue],
        trace := [Emit EvOpen,
          StreamOn 1 \<lparr>mask = JBool False, binary = Undefined, fin = JBool True\<rparr> (Some (SendDone (Some 7))),
          Enc (EClose (JNum 1000) Undefined False), SockEnd, Cb 7 (Some NotOpened)]\<rparr>) \<and>
   executeQueueSends accepting closed_mid_stream =
     (Some NotOpened, closed_mid_stream\<lparr>queue := None,
        trace := [Emit EvOpen,
          StreamOn 1 \<lparr>mask = JBool False, binary = Undefined, fin = JBool True\<rparr> (Some (SendDone (Some 7))),
          Enc (EClose (JNum 1000) Undefined False), SockEnd, Cb 8 (Some NotOpened)]\<rparr>)"
  using stream_chunk_not_open [where sd = accepting and s = closed_mid_stream
      and options = "\<lparr>mask = JBool False, binary = Undefined, fin = JBool True\<rparr>"
      and c = 7 and data = "JStr ''hel''" and i = 1]
  by (simp add: closed_mid_stream_eq)

text \<open>
  C5 as stated fails in its last part: after close() during a stream, the next chunk
  schedules the release, and the tick that follows removes the queue and calls the
  deferred send (which raises "not opened").
\<close>

theorem stream_chunk_release_counterexample:
  "queue (run accepting [Tick, Send (ReadStream 1) OAbsent (Some 7), Send (JStr ''X'') OAbsent None,
       Close (JNum 1000) Undefined, StreamData 1 (JStr ''hel'')] new_server)
     = Some [DSend (JStr ''X'') OAbsent None] \<and>
   ticks (run accepting [Tick, Send (ReadStream 1) OAbsent (Some 7), Send (JStr ''X'') OAbsent None,
       Close (JNum 1000) Undefined, StreamData 1 (JStr ''hel'')] new_server) = [TExecQueue] \<and>
   queue (run accepting [Tick, Send (ReadStream 1) OAbsent (Some 7), Send (JStr ''X'') OAbsent None,
       Close (JNum 1000) Undefined, StreamData 1 (JStr ''hel''), Tick] new_server) = None \<and>
   trace (run accepting [Tick, Send (ReadStream 1) OAbsent (Some 7), Send (JStr ''X'') OAbsent None,
       Close (JNum 1000) Undefined, StreamData 1 (JStr ''hel''), Tick] new_server) =
     [Emit EvOpen,
      StreamOn 1 \<lparr>mask = JBool False, binary = Undefined, fin = JBool True\<rparr> (Some (SendDone (Some 7))),
      Enc (EClose (JNum 1000) Undefined False), SockEnd, Cb 7 (Some NotOpened), Raised NotOpened]"
  by code_simp

subsection \<open>The client handshake\<close>

text \<open>Once the upgrade event of the request has come, a client is never upgraded.\<close>

lemma keeps_no_open: "keeps s s' \<Longrightarrow> adds (\<lambda>x. x \<noteq> Emit EvOpen) s s'"
proof -
  assume "keeps s s'"
  then have a: "adds (\<lambda>x. \<not> is_emit x) s s'" by (simp add: keeps_def)
  have "\<And>x. \<not> is_emit x \<Longrightarrow> x \<noteq> Emit EvOpen" by auto
  with a show ?thesis by (rule adds_mono)
qed

lemma lasting_refl: "lasting s s"
  by (simp add: lasting_def adds_refl)

lemma lasting_trans: "lasting a b \<Longrightarrow> lasting b c \<Longrightarrow> lasting a c"
  unfolding lasting_def using adds_trans by blast

lemma spent_same_control: "spent s \<Longrightarrow> same_control s s' \<Longrightarrow> spent s'"
  by (auto simp: spent_def same_control_def)

lemma lasting_keeps: "keeps s s' \<Longrightarrow> lasting s s'"
  unfolding lasting_def using spent_same_control keeps_no_open by (auto simp: keeps_def)

lemma lasting_emit: "e \<noteq> EvOpen \<Longrightarrow> lasting s (snd (emit e s))"
  unfolding lasting_def using spent_same_control [OF _ emit_same_control] emit_adds [of "\<lambda>x. x \<noteq> Emit EvOpen" e s]
  by simp

lemma lasting_out: "x \<noteq> Emit EvOpen \<Longrightarrow> lasting s (out x s)"
  by (simp add: lasting_def spent_def adds_def out_def)

lemma lasting_close: "lasting s (snd (close sd code data s))"
proof -
  have "spent s \<Longrightarrow> spent (snd (close sd code data s)) \<and>
     adds (\<lambda>x. x \<noteq> Emit EvOpen) s (snd (close sd code data s))"
    by (auto simp: spent_def adds_def close_def call_def terminate_def emit_error out_def
        split: option.splits)
  then show ?thesis by (simp add: lasting_def)
qed

lemma lasting_socket_gone: "lasting s (snd (socket_gone s))"
  by (auto simp: lasting_def spent_def adds_def socket_gone_def emit_plain out_def)

lemma lasting_sendStream_data: "lasting s (snd (sendStream_data sd options cb data s))"
  using sendStream_data_cases [of s sd options cb data] lasting_keeps lasting_emit [of "EvError NotOpened Undefined" s]
  by auto

lemma lasting_sendStream_end: "lasting s (snd (sendStream_end sd options cb s))"
  using sendStream_end_cases [of s sd options cb] lasting_keeps lasting_emit [of "EvError NotOpened Undefined" s]
  by auto

lemma step_lasting: "lasting s (snd (step sd e s))"
proof (cases e)
  case (Close code data)
  then show ?thesis by (simp add: lasting_close)
next
  case (Ping data options)
  then show ?thesis by (simp add: lasting_keeps keeps_ping)
next
  case (Pong data options)
  then show ?thesis by (simp add: lasting_keeps keeps_pong)
next
  case (Send data options cb)
  then show ?thesis by (simp add: lasting_keeps keeps_send)
next
  case (Stream options cb)
  then show ?thesis by (simp add: lasting_keeps keeps_stream)
next
  case Terminate
  then show ?thesis by (auto simp: lasting_def spent_def adds_def terminate_def out_def)
next
  case (Push n data final)
  then show ?thesis by (simp add: lasting_keeps keeps_push lasting_refl)
next
  case Tick
  show ?thesis
  proof (cases "ticks s")
    case Nil
    with Tick show ?thesis by (simp add: lasting_refl)
  next
    case (Cons t ts)
    show ?thesis
    proof (cases t)
      case TUpgrade
      with Cons show ?thesis by (simp add: lasting_def spent_def)
    next
      case TExecQueue
      have k: "keeps (s\<lparr>ticks := ts\<rparr>) (snd (executeQueueSends sd (s\<lparr>ticks := ts\<rparr>)))"
        by (rule keeps_executeQueueSends)
      have "spent (snd (executeQueueSends sd (s\<lparr>ticks := ts\<rparr>))) \<and>
          adds (\<lambda>x. x \<noteq> Emit EvOpen) s (snd (executeQueueSends sd (s\<lparr>ticks := ts\<rparr>)))"
        if sp: "spent s"
      proof -
        from sp Cons have sp': "spent (s\<lparr>ticks := ts\<rparr>)" by (simp add: spent_def)
        with k have "spent (snd (executeQueueSends sd (s\<lparr>ticks := ts\<rparr>)))"
          using spent_same_control by (auto simp: keeps_def)
        moreover from keeps_no_open [OF k]
        have "adds (\<lambda>x. x \<noteq> Emit EvOpen) s (snd (executeQueueSends sd (s\<lparr>ticks := ts\<rparr>)))"
          by (simp add: adds_def)
        ultimately show ?thesis by simp
      qed
      with Tick Cons TExecQueue show ?thesis by (simp add: lasting_def)
    next
      case (TStreamCb cb n)
      with Tick Cons show ?thesis by (auto simp: lasting_def spent_def adds_def out_def)
    qed
  qed
next
  case (ReqError x)
  then show ?thesis by (simp add: lasting_emit lasting_refl)
next
  case (ReqUpgrade accept)
  then show ?thesis by (simp add: lasting_def spent_def adds_refl)
next
  case SocketEnd
  then show ?thesis by (simp add: lasting_socket_gone lasting_refl)
next
  case SocketClose
  then show ?thesis by (simp add: lasting_socket_gone lasting_refl)
next
  case (RecvText data flags)
  then show ?thesis by (simp add: receiver_text_def lasting_emit lasting_refl)
next
  case (RecvBinary data flags)
  then show ?thesis by (simp add: receiver_binary_def lasting_emit lasting_refl)
next
  case (RecvPing data flags)
  define o' where "o' = Some \<lparr>mask = JBool (\<not> isServer s),
        binary = JBool (binary_of flags = JBool True), fin = Undefined\<rparr>"
  obtain r s' where p: "pong sd data o' s = (r, s')" by (cases "pong sd data o' s")
  with keeps_pong [of s sd data o'] have l1: "lasting s s'" by (simp add: lasting_keeps)
  from lasting_trans [OF l1 lasting_emit]
  have "lasting s (snd (emit (EvPing data (binary_of flags)) s'))" by simp
  with RecvPing p l1 show ?thesis
    by (cases r) (simp_all add: receiver_ping_def o'_def [symmetric] lasting_refl)
next
  case (RecvClose code data)
  then show ?thesis by (simp add: receiver_close_def lasting_close lasting_refl)
next
  case (RecvError reason errorCode)
  obtain r s' where c: "close sd errorCode (JStr []) s = (r, s')"
    by (cases "close sd errorCode (JStr []) s")
  with lasting_close [of s sd errorCode "JStr []"] have l1: "lasting s s'" by simp
  from lasting_trans [OF l1 lasting_emit]
  have "lasting s (snd (emit (EvError reason errorCode) s'))" by simp
  with RecvError c l1 show ?thesis
    by (cases r) (simp_all add: receiver_error_def lasting_emit lasting_refl)
next
  case (SenderError x)
  then show ?thesis by (simp add: lasting_emit lasting_refl)
next
  case (StreamData i data)
  then show ?thesis
    using on_data_rel [where R = lasting, OF lasting_refl lasting_trans lasting_sendStream_data]
    by simp
next
  case (StreamEnd i)
  then show ?thesis
    using on_end_rel [where R = lasting, OF lasting_refl lasting_trans lasting_sendStream_end]
    by simp
next
  case OnError
  then show ?thesis by (simp add: lasting_def spent_def adds_def)
next
  case OffError
  then show ?thesis by (simp add: lasting_def spent_def adds_def)
qed

lemma exec_lasting: "lasting s (exec sd e s)"
proof -
  obtain r s' where x: "step sd e s = (r, s')" by (cases "step sd e s")
  with step_lasting [of s sd e] have l: "lasting s s'" by simp
  show ?thesis
  proof (cases r)
    case None
    with x l show ?thesis by (simp add: exec_def)
  next
    case (Some err)
    from lasting_trans [OF l lasting_out [of "Raised err" s']] x Some show ?thesis
      by (simp add: exec_def)
  qed
qed

lemma run_lasting: "lasting s (run sd es s)"
proof (induction es arbitrary: s)
  case Nil
  show ?case by (simp add: lasting_refl)
next
  case (Cons e es)
  from lasting_trans [OF exec_lasting Cons.IH] show ?case by simp
qed

lemma run_spent_no_open:
  "spent s \<Longrightarrow> Emit EvOpen \<notin> set (trace s) \<Longrightarrow> Emit EvOpen \<notin> set (trace (run sd es s))"
  using run_lasting [of s sd es] by (auto simp: lasting_def adds_def)

text \<open>
  C6, as the code has it. The constructor computes the key as base64 of
  "version-milliseconds" and the expected accept value as base64 of the SHA-1 of the key
  followed by the GUID. When the upgrade event of the request finds a ready state other
  than Closed and the accept header is absent or differs from the expected value, upgrade
  does not run, and no open event is emitted then or at any later time. With an error
  listener registered, the error "invalid server key" is emitted and the socket is ended
  after it; with none, the emit throws and the handler is left before it ends the socket.
  When the event finds the state Closed, the close event is emitted and the socket is
  ended, whatever the header.
\<close>

theorem client_handshake:
  "(new_client encode digest host version now = Inr s \<longrightarrow>
      key s = encode (decimal version @ ''-'' @ decimal now) \<and>
      expectedServerKey s = encode (digest (key s @ ''258EAFA5-E914-47DA-95CA-C5AB0DC85B11'')) \<and>
      \<not> isServer s \<and> pending s \<and> readyState s = CONNECTING \<and> ticks s = []) \<and>
   (\<not> isServer s \<and> pending s \<and> readyState s \<noteq> CLOSED \<and> accept \<noteq> Some (expectedServerKey s) \<longrightarrow>
      step sd (ReqUpgrade accept) s =
        (if errorListener s then
           (None, s\<lparr>pending := False, queue := None,
                    trace := trace s @ [Emit (EvError InvalidServerKey Undefined), SockEnd]\<rparr>)
         else (Some Unspecified, s\<lparr>pending := False, queue := None\<rparr>)) \<and>
      (TUpgrade \<notin> set (ticks s) \<and> Emit EvOpen \<notin> set (trace s) \<longrightarrow>
         Emit EvOpen \<notin> set (trace (run sd (ReqUpgrade accept # es) s)))) \<and>
   (\<not> isServer s \<and> pending s \<and> readyState s = CLOSED \<longrightarrow>
      step sd (ReqUpgrade accept) s =
        (None, s\<lparr>pending := False, trace := trace s @ [Emit EvCloseBare, SockEnd]\<rparr>))"
proof -
  have made: "new_client encode digest host version now = Inr s \<longrightarrow>
      key s = encode (decimal version @ ''-'' @ decimal now) \<and>
      expectedServerKey s = encode (digest (key s @ ''258EAFA5-E914-47DA-95CA-C5AB0DC85B11'')) \<and>
      \<not> isServer s \<and> pending s \<and> readyState s = CONNECTING \<and> ticks s = []"
    by (auto simp: new_client_def session_key_def accept_of_def GUID_def fresh_def Let_def
        split: if_splits)
  have refusal: "step sd (ReqUpgrade accept) s =
        (if errorListener s then
           (None, s\<lparr>pending := False, queue := None,
                    trace := trace s @ [Emit (EvError InvalidServerKey Undefined), SockEnd]\<rparr>)
         else (Some Unspecified, s\<lparr>pending := False, queue := None\<rparr>))"
    if "\<not> isServer s \<and> pending s \<and> readyState s \<noteq> CLOSED \<and> accept \<noteq> Some (expectedServerKey s)"
    using that by (auto simp: on_upgrade_def emit_error out_def)
  have never: "Emit EvOpen \<notin> set (trace (run sd (ReqUpgrade accept # es) s))"
    if h: "\<not> isServer s \<and> pending s \<and> readyState s \<noteq> CLOSED \<and> accept \<noteq> Some (expectedServerKey s)"
      and t: "TUpgrade \<notin> set (ticks s) \<and> Emit EvOpen \<notin> set (trace s)"
  proof -
    define s' where "s' = exec sd (ReqUpgrade accept) s"
    from refusal [OF h] h t have "spent s'" "Emit EvOpen \<notin> set (trace s')"
      by (auto simp: s'_def exec_def spent_def out_def split: if_splits)
    then have "Emit EvOpen \<notin> set (trace (run sd es s'))" by (rule run_spent_no_open)
    then show ?thesis by (simp add: s'_def)
  qed
  have closed: "step sd (ReqUpgrade accept) s =
        (None, s\<lparr>pending := False, trace := trace s @ [Emit EvCloseBare, SockEnd]\<rparr>)"
    if "\<not> isServer s \<and> pending s \<and> readyState s = CLOSED"
    using that by (auto simp: on_upgrade_def emit_plain out_def)
  from made refusal never closed show ?thesis by blast
qed

theorem client_handshake_witness:
  "new_client (\<lambda>b. b) (\<lambda>b. b) True 13 0 = Inr sample_client \<and>
   key sample_client = ''13-0'' \<and>
   expectedServerKey sample_client = ''13-0258EAFA5-E914-47DA-95CA-C5AB0DC85B11'' \<and>
   \<not> isServer (run accepting [OnError] sample_client) \<and> pending (run accepting [OnError] sample_client) \<and>
   readyState (run accepting [OnError] sample_client) \<noteq> CLOSED \<and>
   Some ''xxx'' \<noteq> Some (expectedServerKey (run accepting [OnError] sample_client)) \<and>
   errorListener (run accepting [OnError] sample_client) \<and>
   TUpgrade \<notin> set (ticks (run accepting [OnError] sample_client)) \<and>
   Emit EvOpen \<notin> set (trace (run accepting [OnError] sample_client)) \<and>
   step accepting (ReqUpgrade (Some ''xxx'')) (run accepting [OnError] sample_client) =
     (None, (run accepting [OnError] sample_client)\<lparr>pending := False, queue := None,
        trace := [Emit (EvError InvalidServerKey Undefined), SockEnd]\<rparr>) \<and>
   Emit EvOpen \<notin> set (trace (run accepting [ReqUpgrade (Some ''xxx''),
       ReqUpgrade (Some ''13-0258EAFA5-E914-47DA-95CA-C5AB0DC85B11''), Send (JStr ''A'') OAbsent None, Tick]
       (run accepting [OnError] sample_client))) \<and>
   \<not> errorListener sample_client \<and>
   step accepting (ReqUpgrade (Some ''xxx'')) sample_client =
     (Some Unspecified, sample_client\<lparr>pending := False, queue := None\<rparr>) \<and>
   readyState (run accepting [Close Undefined Undefined] sample_client) = CLOSED \<and>
   step accepting (ReqUpgrade None) (run accepting [Close Undefined Undefined] sample_client) =
     (None, (run accepting [Close Undefined Undefined] sample_client)\<lparr>pending := False,
        trace := [Emit EvCloseBare, SockEnd]\<rparr>)"
  using client_handshake [where encode = "\<lambda>b. b" and digest = "\<lambda>b. b" and host = True and version = 13
      and now = 0 and s = sample_client and sd = accepting and accept = "Some ''xxx''" and es = "[]"]
    client_handshake [where encode = "\<lambda>b. b" and digest = "\<lambda>b. b" and host = True and version = 13
      and now = 0 and s = "run accepting [OnError] sample_client" and sd = accepting
      and accept = "Some ''xxx''"
      and es = "[ReqUpgrade (Some ''13-0258EAFA5-E914-47DA-95CA-C5AB0DC85B11''), Send (JStr ''A'') OAbsent None, Tick]"]
    client_handshake [where encode = "\<lambda>b. b" and digest = "\<lambda>b. b" and host = True and version = 13
      and now = 0 and s = "run accepting [Close Undefined Undefined] sample_client" and sd = accepting
      and accept = None and es = "[]"]
  by (simp add: sample_client_eq model_defs new_client_def session_key_def accept_of_def GUID_def
      decimal.simps digit_def)

text \<open>
  C6 as stated fails when the client was closed before the response came: the response
  without an accept header gives the close event, not the error, although an error
  listener is registered.
\<close>

theorem closed_before_upgrade_counterexample:
  "\<not> isServer sample_client \<and>
   None \<noteq> Some (expectedServerKey sample_client) \<and>
   errorListener (run accepting [OnError, Close Undefined Undefined] sample_client) \<and>
   trace (run accepting [OnError, Close Undefined Undefined, ReqUpgrade None] sample_client) =
     [Emit EvCloseBare, SockEnd] \<and>
   Emit (EvError InvalidServerKey Undefined) \<notin>
     set (trace (run accepting [OnError, Close Undefined Undefined, ReqUpgrade None] sample_client))"
  by (simp add: sample_client_eq model_defs)

subsection \<open>An error event and the queue\<close>

lemma keeps_quiet: "keeps s s' \<Longrightarrow> adds (\<lambda>x. \<not> is_error_obs x) s s'"
proof -
  assume "keeps s s'"
  then have a: "adds (\<lambda>x. \<not> is_emit x) s s'" by (simp add: keeps_def)
  have "\<And>x. \<not> is_emit x \<Longrightarrow> \<not> is_error_obs x"
  proof -
    fix x show "\<not> is_emit x \<Longrightarrow> \<not> is_error_obs x" by (cases x) simp_all
  qed
  with a show ?thesis by (rule adds_mono)
qed

lemma mild_refl: "mild s s"
  by (simp add: mild_def adds_refl)

lemma mild_trans: "mild a b \<Longrightarrow> mild b c \<Longrightarrow> mild a c"
  unfolding mild_def using adds_trans by fastforce

lemma mild_emit: "mild s (snd (emit e s))"
  by (cases e) (auto simp: mild_def emit_def Let_def adds_def out_def)

lemma mild_close: "mild s (snd (close sd code data s))"
  by (auto simp: mild_def close_def call_def terminate_def emit_error adds_def out_def
      split: option.splits)

lemma mild_sendStream_data: "mild s (snd (sendStream_data sd options cb data s))"
proof (cases cb)
  case None
  then show ?thesis
    using mild_emit [of s "EvError NotOpened Undefined"]
    by (auto simp: sendStream_data_def not_opened_def call_def mild_def adds_def out_def)
next
  case (Some k)
  then show ?thesis
    by (cases k)
       (auto simp: sendStream_data_def not_opened_def call_def mild_def adds_def out_def
          nextTick_def Let_def split: option.splits)
qed

lemma mild_sendStream_end: "mild s (snd (sendStream_end sd options cb s))"
proof (cases cb)
  case None
  then show ?thesis
    using mild_emit [of s "EvError NotOpened Undefined"]
    by (auto simp: sendStream_end_def not_opened_def call_def mild_def adds_def out_def
        split: option.splits)
next
  case (Some k)
  then show ?thesis
    by (cases k)
       (auto simp: sendStream_end_def not_opened_def call_def mild_def adds_def out_def
          nextTick_def Let_def split: option.splits)
qed

lemma blind_emit: "blind (emit e) s"
  by (cases e) (simp_all add: blind_def emit_def Let_def out_def)

lemma blind_close: "blind (close sd code data) s"
  by (auto simp: blind_def close_def call_def terminate_def emit_error out_def split: option.splits)

lemma blind_sendStream_data: "blind (sendStream_data sd options cb data) s"
proof (cases cb)
  case None
  then show ?thesis
    by (simp add: blind_def sendStream_data_def not_opened_def call_def emit_error out_def)
next
  case (Some k)
  then show ?thesis
    by (cases k)
       (simp add: blind_def sendStream_data_def not_opened_def call_def out_def nextTick_def Let_def
          split: option.splits)
qed

lemma blind_sendStream_end: "blind (sendStream_end sd options cb) s"
proof (cases cb)
  case None
  then show ?thesis
    by (simp add: blind_def sendStream_end_def not_opened_def call_def emit_error out_def
        split: option.splits)
next
  case (Some k)
  then show ?thesis
    by (cases k)
       (simp add: blind_def sendStream_end_def not_opened_def call_def out_def nextTick_def Let_def
          split: option.splits)
qed

lemma blind_on_data: "blind (on_data sd hs data) s"
proof (induction hs arbitrary: s)
  case Nil
  show ?case by (simp add: blind_def)
next
  case (Cons h hs)
  obtain i options cb where h: "h = (i, options, cb)" by (cases h)
  obtain r s' where x: "sendStream_data sd options cb data s = (r, s')"
    by (cases "sendStream_data sd options cb data s")
  with blind_sendStream_data [of sd options cb data s]
  have y: "sendStream_data sd options cb data (s\<lparr>queue := None\<rparr>) = (r, s'\<lparr>queue := None\<rparr>)"
    by (simp add: blind_def)
  from Cons.IH [of s'] have "on_data sd hs data (s'\<lparr>queue := None\<rparr>) =
      (fst (on_data sd hs data s'), (snd (on_data sd hs data s'))\<lparr>queue := None\<rparr>)"
    by (simp add: blind_def)
  with h x y show ?case by (cases r) (simp_all add: blind_def)
qed

lemma blind_on_end: "blind (on_end sd hs) s"
proof (induction hs arbitrary: s)
  case Nil
  show ?case by (simp add: blind_def)
next
  case (Cons h hs)
  obtain i options cb where h: "h = (i, options, cb)" by (cases h)
  obtain r s' where x: "sendStream_end sd options cb s = (r, s')"
    by (cases "sendStream_end sd options cb s")
  with blind_sendStream_end [of sd options cb s]
  have y: "sendStream_end sd options cb (s\<lparr>queue := None\<rparr>) = (r, s'\<lparr>queue := None\<rparr>)"
    by (simp add: blind_def)
  from Cons.IH [of s'] have "on_end sd hs (s'\<lparr>queue := None\<rparr>) =
      (fst (on_end sd hs s'), (snd (on_end sd hs s'))\<lparr>queue := None\<rparr>)"
    by (simp add: blind_def)
  with h x y show ?case by (cases r) (simp_all add: blind_def)
qed

text \<open>
  A step that reads the queue gives no error event; any other step does the same on the
  session with the queue taken away, and leaves no queue if it gives an error event.
\<close>

lemma mild_dropped: "mild s s' \<Longrightarrow> adds (\<lambda>x. \<not> is_error_obs x) s s' \<or> queue s' = None"
  by (auto simp: mild_def)

lemma step_quiet_or_blind:
  "adds (\<lambda>x. \<not> is_error_obs x) s (snd (step sd e s)) \<or>
   (blind (step sd e) s \<and> queue (snd (step sd e s)) = None)"
proof (cases e)
  case (Close code data)
  then show ?thesis using blind_close [of sd code data s] mild_dropped [OF mild_close [of s sd code data]]
    by (auto simp: blind_def)
next
  case (Ping data options)
  then show ?thesis using keeps_quiet [OF keeps_ping] by simp
next
  case (Pong data options)
  then show ?thesis using keeps_quiet [OF keeps_pong] by simp
next
  case (Send data options cb)
  then show ?thesis using keeps_quiet [OF keeps_send] by simp
next
  case (Stream options cb)
  then show ?thesis using keeps_quiet [OF keeps_stream] by simp
next
  case Terminate
  then show ?thesis by (simp add: terminate_def out_def adds_def)
next
  case (Push n data final)
  then show ?thesis using keeps_quiet [OF keeps_push] by (simp add: adds_refl)
next
  case Tick
  show ?thesis
  proof (cases "ticks s")
    case Nil
    with Tick show ?thesis by (simp add: adds_refl)
  next
    case (Cons t ts)
    show ?thesis
    proof (cases t)
      case TUpgrade
      with Tick Cons show ?thesis by (simp add: upgrade_def emit_plain out_def adds_def)
    next
      case TExecQueue
      from keeps_quiet [OF keeps_executeQueueSends, of "s\<lparr>ticks := ts\<rparr>" sd]
      have "adds (\<lambda>x. \<not> is_error_obs x) s (snd (executeQueueSends sd (s\<lparr>ticks := ts\<rparr>)))"
        by (simp add: adds_def)
      with Tick Cons TExecQueue show ?thesis by simp
    next
      case (TStreamCb cb n)
      with Tick Cons show ?thesis by (simp add: out_def adds_def)
    qed
  qed
next
  case (ReqError x)
  then show ?thesis
    using blind_emit [of "EvError x Undefined" s] mild_dropped [OF mild_emit [of s "EvError x Undefined"]]
    by (auto simp: blind_def adds_refl)
next
  case (ReqUpgrade accept)
  then show ?thesis
    by (auto simp: blind_def on_upgrade_def upgrade_def emit_plain emit_error out_def adds_def)
next
  case SocketEnd
  then show ?thesis by (simp add: socket_gone_def emit_plain out_def adds_def)
next
  case SocketClose
  then show ?thesis by (simp add: socket_gone_def emit_plain out_def adds_def)
next
  case (RecvText data flags)
  then show ?thesis by (simp add: receiver_text_def emit_plain out_def adds_def)
next
  case (RecvBinary data flags)
  then show ?thesis by (simp add: receiver_binary_def emit_plain out_def adds_def)
next
  case (RecvPing data flags)
  define o' where "o' = Some \<lparr>mask = JBool (\<not> isServer s),
        binary = JBool (binary_of flags = JBool True), fin = Undefined\<rparr>"
  obtain r s' where p: "pong sd data o' s = (r, s')" by (cases "pong sd data o' s")
  with keeps_quiet [OF keeps_pong, of s sd data o']
  have q1: "adds (\<lambda>x. \<not> is_error_obs x) s s'" by simp
  have "adds (\<lambda>x. \<not> is_error_obs x) s' (snd (emit (EvPing data (binary_of flags)) s'))"
    by (rule emit_adds) simp
  with q1 have "adds (\<lambda>x. \<not> is_error_obs x) s (snd (emit (EvPing data (binary_of flags)) s'))"
    by (rule adds_trans)
  with RecvPing p q1 show ?thesis
    by (cases r) (simp_all add: receiver_ping_def o'_def [symmetric] adds_refl)
next
  case (RecvClose code data)
  then show ?thesis using blind_close [of sd code data s] mild_dropped [OF mild_close [of s sd code data]]
    by (auto simp: blind_def receiver_close_def adds_refl)
next
  case (RecvError reason errorCode)
  show ?thesis
  proof (cases "attached s")
    case False
    with RecvError show ?thesis by (simp add: adds_refl)
  next
    case True
    have b: "blind (receiver_error sd reason errorCode) s"
    proof (cases "errorCode = Undefined")
      case True
      then show ?thesis using blind_emit [of "EvError reason errorCode" s]
        by (simp add: blind_def receiver_error_def)
    next
      case False
      obtain r s' where c: "close sd errorCode (JStr []) s = (r, s')"
        by (cases "close sd errorCode (JStr []) s")
      with blind_close [of sd errorCode "JStr []" s]
      have c': "close sd errorCode (JStr []) (s\<lparr>queue := None\<rparr>) = (r, s'\<lparr>queue := None\<rparr>)"
        by (simp add: blind_def)
      from False c c' blind_emit [of "EvError reason errorCode" s'] show ?thesis
        by (cases r) (simp_all add: blind_def receiver_error_def)
    qed
    have m: "mild s (snd (receiver_error sd reason errorCode s))"
    proof (cases "errorCode = Undefined")
      case True
      then show ?thesis using mild_emit by (simp add: receiver_error_def)
    next
      case False
      obtain r s' where c: "close sd errorCode (JStr []) s = (r, s')"
        by (cases "close sd errorCode (JStr []) s")
      with mild_close [of s sd errorCode "JStr []"] have m1: "mild s s'" by simp
      from mild_trans [OF m1 mild_emit] False c m1 show ?thesis
        by (cases r) (simp_all add: receiver_error_def)
    qed
    from RecvError True b mild_dropped [OF m] show ?thesis by (auto simp: blind_def)
  qed
next
  case (SenderError x)
  then show ?thesis
    using blind_emit [of "EvError x Undefined" s] mild_dropped [OF mild_emit [of s "EvError x Undefined"]]
    by (auto simp: blind_def adds_refl)
next
  case (StreamData i data)
  then show ?thesis
    using blind_on_data [of sd "filter (\<lambda>h. fst h = i) (readers s)" data s]
      mild_dropped [OF on_data_rel [where R = mild, OF mild_refl mild_trans mild_sendStream_data]]
    by (auto simp: blind_def)
next
  case (StreamEnd i)
  then show ?thesis
    using blind_on_end [of sd "filter (\<lambda>h. fst h = i) (readers s)" s]
      mild_dropped [OF on_end_rel [where R = mild, OF mild_refl mild_trans mild_sendStream_end]]
    by (auto simp: blind_def)
next
  case OnError
  then show ?thesis by (simp add: adds_def)
next
  case OffError
  then show ?thesis by (simp add: adds_def)
qed

lemma exec_quiet_or_blind:
  "adds (\<lambda>x. \<not> is_error_obs x) s (exec sd e s) \<or>
   (queue (exec sd e s) = None \<and> exec sd e s = exec sd e (s\<lparr>queue := None\<rparr>))"
proof -
  obtain r s' where st: "step sd e s = (r, s')" by (cases "step sd e s")
  from step_quiet_or_blind [of s sd e]
  show ?thesis
  proof
    assume a: "adds (\<lambda>x. \<not> is_error_obs x) s (snd (step sd e s))"
    have "adds (\<lambda>x. \<not> is_error_obs x) s' (out (Raised x) s')" for x by (simp add: adds_out)
    with a st have "adds (\<lambda>x. \<not> is_error_obs x) s (exec sd e s)"
      using adds_trans by (cases r) (auto simp: exec_def)
    then show ?thesis ..
  next
    assume b: "blind (step sd e) s \<and> queue (snd (step sd e s)) = None"
    with st have "step sd e (s\<lparr>queue := None\<rparr>) = (r, s')" "queue s' = None"
      by (simp_all add: blind_def)
    with st have "queue (exec sd e s) = None \<and> exec sd e s = exec sd e (s\<lparr>queue := None\<rparr>)"
      by (cases r) (simp_all add: exec_def out_def)
    then show ?thesis ..
  qed
qed

lemma streaming_server_eq:
  "streaming_server =
     \<lparr>isServer = True, readyState = OPEN, socket = True, attached = True,
      pending = False, key = [], expectedServerKey = [],
      queue = Some [DSend (JStr ''X'') OAbsent None],
      closeCode = Undefined, closeMessage = Undefined, errorListener = True,
      readers = [],
      streams = [(\<lparr>mask = JBool False, binary = Undefined, fin = Undefined\<rparr>, 1)],
      ticks = [TStreamCb 1 0], trace = [Emit EvOpen]\<rparr>"
  by code_simp

text \<open>
  C7. Whenever a step gives an error event to the listeners, the queue is absent after the
  step, and the step has done exactly what it does on the same session with the queue
  taken away beforehand: none of the closures that were on the queue has been called, and
  none is left to be called.
\<close>

theorem error_discards_queue:
  "trace (exec sd e s) = trace s @ new \<and> Emit (EvError err code) \<in> set new \<longrightarrow>
     queue (exec sd e s) = None \<and> exec sd e s = exec sd e (s\<lparr>queue := None\<rparr>)"
proof
  assume h: "trace (exec sd e s) = trace s @ new \<and> Emit (EvError err code) \<in> set new"
  have "\<not> adds (\<lambda>x. \<not> is_error_obs x) s (exec sd e s)"
  proof
    assume "adds (\<lambda>x. \<not> is_error_obs x) s (exec sd e s)"
    then obtain n where n: "trace (exec sd e s) = trace s @ n" "\<forall>x\<in>set n. \<not> is_error_obs x"
      by (auto simp: adds_def)
    with h have "n = new" by simp
    with h n have "\<not> is_error_obs (Emit (EvError err code))" by blast
    then show False by simp
  qed
  with exec_quiet_or_blind [of s sd e]
  show "queue (exec sd e s) = None \<and> exec sd e s = exec sd e (s\<lparr>queue := None\<rparr>)" by blast
qed

theorem error_discards_queue_witness:
  "queue streaming_server = Some [DSend (JStr ''X'') OAbsent None] \<and>
   trace (exec accepting (SenderError (External ''EPIPE'')) streaming_server)
     = trace streaming_server @ [Emit (EvError (External ''EPIPE'') Undefined)] \<and>
   Emit (EvError (External ''EPIPE'') Undefined) \<in> set [Emit (EvError (External ''EPIPE'') Undefined)] \<and>
   queue (exec accepting (SenderError (External ''EPIPE'')) streaming_server) = None \<and>
   exec accepting (SenderError (External ''EPIPE'')) streaming_server
     = exec accepting (SenderError (External ''EPIPE'')) (streaming_server\<lparr>queue := None\<rparr>) \<and>
   exec accepting (SenderError (External ''EPIPE'')) streaming_server
     = streaming_server\<lparr>queue := None,
         trace := [Emit EvOpen, Emit (EvError (External ''EPIPE'') Undefined)]\<rparr> \<and>
   trace (exec accepting (RecvError (Text ''bad frame'') (JNum 1002)) streaming_server)
     = trace streaming_server @ [Enc (EClose (JNum 1002) (JStr []) False), SockEnd,
          Emit (EvError (Text ''bad frame'') (JNum 1002))] \<and>
   Emit (EvError (Text ''bad frame'') (JNum 1002)) \<in> set [Enc (EClose (JNum 1002) (JStr []) False), SockEnd,
          Emit (EvError (Text ''bad frame'') (JNum 1002))] \<and>
   queue (exec accepting (RecvError (Text ''bad frame'') (JNum 1002)) streaming_server) = None \<and>
   exec accepting (RecvError (Text ''bad frame'') (JNum 1002)) streaming_server
     = exec accepting (RecvError (Text ''bad frame'') (JNum 1002)) (streaming_server\<lparr>queue := None\<rparr>)"
  using error_discards_queue [where sd = accepting and e = "SenderError (External ''EPIPE'')"
      and s = streaming_server
      and new = "[Emit (EvError (External ''EPIPE'') Undefined)]" and err = "External ''EPIPE''"
      and code = Undefined]
    error_discards_queue [where sd = accepting and e = "RecvError (Text ''bad frame'') (JNum 1002)"
      and s = streaming_server
      and new = "[Enc (EClose (JNum 1002) (JStr []) False), SockEnd,
          Emit (EvError (Text ''bad frame'') (JNum 1002))]" and err = "Text ''bad frame''"
      and code = "JNum 1002"]
  by (simp add: streaming_server_eq model_defs)

subsection \<open>The ready state only moves forward\<close>

lemma forward_refl: "forward a a"
  by (cases a) simp_all

lemma in_tl: "x \<in> set (tl xs) \<Longrightarrow> x \<in> set xs"
  by (cases xs) auto

lemma settled_same_control: "settled s \<Longrightarrow> same_control s s' \<Longrightarrow> settled s'"
proof -
  assume st: "settled s" and sc: "same_control s s'"
  from sc obtain ts where ts: "ticks s' = ticks s @ ts" "TUpgrade \<notin> set ts"
    by (auto simp: same_control_def)
  from st have "TUpgrade \<notin> set (tl (ticks s))" by (simp add: settled_def)
  with ts have "TUpgrade \<notin> set (tl (ticks s'))" by (cases "ticks s") (auto dest: in_tl)
  moreover from ts have "TUpgrade \<in> set (ticks s') \<longleftrightarrow> TUpgrade \<in> set (ticks s)" by auto
  ultimately show ?thesis using st sc by (simp add: settled_def same_control_def)
qed

lemma settled_keeps: "settled s \<Longrightarrow> keeps s s' \<Longrightarrow> settled s'"
  by (simp add: keeps_def settled_same_control)

lemma same_control_out: "same_control s (out x s)"
  by (simp add: same_control_def out_def)

lemma settled_pop: "settled s \<Longrightarrow> ticks s = t # ts \<Longrightarrow> t \<noteq> TUpgrade \<Longrightarrow> settled (s\<lparr>ticks := ts\<rparr>)"
  by (auto simp: settled_def dest: in_tl)

lemma settled_close: "settled s \<Longrightarrow> settled (snd (close sd code data s))"
  by (auto simp: settled_def close_def call_def terminate_def emit_error out_def split: option.splits)

lemma forward_close: "forward (readyState s) (readyState (snd (close sd code data s)))"
  by (cases "readyState s")
     (auto simp: close_def call_def terminate_def emit_error out_def split: option.splits)

lemma same_control_sendStream_data: "same_control s (snd (sendStream_data sd options cb data s))"
  using sendStream_data_cases [of s sd options cb data] emit_same_control [of s "EvError NotOpened Undefined"]
  by (auto simp: keeps_def)

lemma same_control_sendStream_end: "same_control s (snd (sendStream_end sd options cb s))"
  using sendStream_end_cases [of s sd options cb] emit_same_control [of s "EvError NotOpened Undefined"]
  by (auto simp: keeps_def)

lemma step_settled_forward:
  assumes st: "settled s"
  shows "settled (snd (step sd e s)) \<and>
     (\<not> (readyState s = CLOSED \<and> e = Tick \<and> TUpgrade \<in> set (ticks s)) \<longrightarrow>
        forward (readyState s) (readyState (snd (step sd e s))))"
proof -
  have same: "\<And>s'. same_control s s' \<Longrightarrow> settled s' \<and> forward (readyState s) (readyState s')"
    using st settled_same_control by (simp add: same_control_def forward_refl)
  have kept: "\<And>s'. keeps s s' \<Longrightarrow> settled s' \<and> forward (readyState s) (readyState s')"
    using same by (simp add: keeps_def)
  show ?thesis
  proof (cases e)
    case (Close code data)
    then show ?thesis using settled_close [OF st] forward_close by simp
  next
    case (Ping data options)
    then show ?thesis using kept [OF keeps_ping] by simp
  next
    case (Pong data options)
    then show ?thesis using kept [OF keeps_pong] by simp
  next
    case (Send data options cb)
    then show ?thesis using kept [OF keeps_send] by simp
  next
    case (Stream options cb)
    then show ?thesis using kept [OF keeps_stream] by simp
  next
    case Terminate
    then show ?thesis using st
      by (cases "readyState s") (auto simp: settled_def terminate_def out_def)
  next
    case (Push n data final)
    then show ?thesis using kept [OF keeps_push] st by (simp add: forward_refl)
  next
    case Tick
    show ?thesis
    proof (cases "ticks s")
      case Nil
      with Tick st show ?thesis by (simp add: forward_refl)
    next
      case (Cons t ts)
      show ?thesis
      proof (cases t)
        case TUpgrade
        with Tick Cons st show ?thesis
          by (cases "readyState s") (auto simp: settled_def upgrade_def emit_plain out_def dest: in_tl)
      next
        case TExecQueue
        with Cons st have st': "settled (s\<lparr>ticks := ts\<rparr>)" by (simp add: settled_pop)
        from settled_keeps [OF st' keeps_executeQueueSends]
        have a: "settled (snd (executeQueueSends sd (s\<lparr>ticks := ts\<rparr>)))" .
        from keeps_executeQueueSends [of "s\<lparr>ticks := ts\<rparr>" sd]
        have "readyState (snd (executeQueueSends sd (s\<lparr>ticks := ts\<rparr>))) = readyState s"
          by (simp add: keeps_def same_control_def)
        with a Tick Cons TExecQueue show ?thesis by (simp add: forward_refl)
      next
        case (TStreamCb cb n)
        with Cons st have st': "settled (s\<lparr>ticks := ts\<rparr>)" by (simp add: settled_pop)
        from settled_same_control [OF st' same_control_out]
        have "settled (out (CbPush cb n) (s\<lparr>ticks := ts\<rparr>))" .
        with Tick Cons TStreamCb show ?thesis by (simp add: forward_refl out_def)
      qed
    qed
  next
    case (ReqError x)
    then show ?thesis using same [OF emit_same_control] st by (simp add: forward_refl)
  next
    case (ReqUpgrade accept)
    then show ?thesis using st
      by (cases "readyState s")
         (auto simp: settled_def on_upgrade_def upgrade_def emit_plain emit_error out_def)
  next
    case SocketEnd
    then show ?thesis using st
      by (cases "readyState s") (auto simp: settled_def socket_gone_def emit_plain out_def)
  next
    case SocketClose
    then show ?thesis using st
      by (cases "readyState s") (auto simp: settled_def socket_gone_def emit_plain out_def)
  next
    case (RecvText data flags)
    then show ?thesis using same [OF emit_same_control] st
      by (simp add: receiver_text_def forward_refl)
  next
    case (RecvBinary data flags)
    then show ?thesis using same [OF emit_same_control] st
      by (simp add: receiver_binary_def forward_refl)
  next
    case (RecvPing data flags)
    define o' where "o' = Some \<lparr>mask = JBool (\<not> isServer s),
        binary = JBool (binary_of flags = JBool True), fin = Undefined\<rparr>"
    obtain r s' where p: "pong sd data o' s = (r, s')" by (cases "pong sd data o' s")
    with keeps_pong [of s sd data o'] have sc: "same_control s s'" by (simp add: keeps_def)
    from same_control_trans [OF sc emit_same_control]
    have "same_control s (snd (emit (EvPing data (binary_of flags)) s'))" .
    with same [OF sc] same [of "snd (emit (EvPing data (binary_of flags)) s')"] RecvPing p st
    show ?thesis by (cases r) (auto simp: receiver_ping_def o'_def [symmetric] forward_refl)
  next
    case (RecvClose code data)
    then show ?thesis using settled_close [OF st] forward_close st
      by (simp add: receiver_close_def forward_refl)
  next
    case (RecvError reason errorCode)
    obtain r s' where c: "close sd errorCode (JStr []) s = (r, s')"
      by (cases "close sd errorCode (JStr []) s")
    with settled_close [OF st, of sd errorCode "JStr []"] forward_close [of s sd errorCode "JStr []"]
    have s': "settled s'" "forward (readyState s) (readyState s')" by simp_all
    from settled_same_control [OF s'(1) emit_same_control]
    have "settled (snd (emit (EvError reason errorCode) s'))" .
    moreover have "readyState (snd (emit (EvError reason errorCode) s')) = readyState s'"
      using emit_same_control [of s' "EvError reason errorCode"] by (simp add: same_control_def)
    ultimately show ?thesis using RecvError c s' st same [OF emit_same_control]
      by (cases r) (auto simp: receiver_error_def forward_refl)
  next
    case (SenderError x)
    then show ?thesis using same [OF emit_same_control] st by (simp add: forward_refl)
  next
    case (StreamData i data)
    then show ?thesis
      using same [OF on_data_rel [where R = same_control, OF same_control_refl same_control_trans
            same_control_sendStream_data]]
      by simp
  next
    case (StreamEnd i)
    then show ?thesis
      using same [OF on_end_rel [where R = same_control, OF same_control_refl same_control_trans
            same_control_sendStream_end]]
      by simp
  next
    case OnError
    then show ?thesis using st by (simp add: settled_def forward_refl)
  next
    case OffError
    then show ?thesis using st by (simp add: settled_def forward_refl)
  qed
qed

lemma exec_settled: "settled s \<Longrightarrow> settled (exec sd e s)"
proof -
  assume st: "settled s"
  obtain r s' where x: "step sd e s = (r, s')" by (cases "step sd e s")
  with step_settled_forward [OF st, of sd e] have "settled s'" by simp
  with x show ?thesis
    by (cases r) (auto simp: exec_def intro: settled_same_control [OF _ same_control_out])
qed

lemma exec_readyState: "readyState (exec sd e s) = readyState (snd (step sd e s))"
  by (cases "step sd e s") (auto simp: exec_def out_def split: option.splits)

lemma run_settled: "settled s \<Longrightarrow> settled (run sd es s)"
  by (induction es arbitrary: s) (simp_all add: exec_settled)

lemma settled_new_server: "settled new_server"
  by (simp add: settled_def new_server_def fresh_def)

lemma settled_new_client: "new_client encode digest host version now = Inr s \<Longrightarrow> settled s"
  by (auto simp: settled_def new_client_def fresh_def Let_def split: if_splits)

lemma closed_server_reopens:
  "readyState (run accepting [Terminate] new_server) = CLOSED \<and>
   readyState (run accepting [Terminate, Tick] new_server) = OPEN \<and>
   readyState (run accepting [Close Undefined Undefined] new_server) = CLOSED \<and>
   readyState (run accepting [Close Undefined Undefined, Tick] new_server) = OPEN"
  by code_simp

text \<open>
  C2, as the code has it. On a session made by either constructor, whatever has happened to
  it, a step leaves the ready state as it is or moves it along Connecting to Open,
  Connecting to Closed, Open to Closing, Open to Closed (the socket ends while the session
  is open) or Closing to Closed. The one step left out is the tick that runs the deferred
  upgrade of the server constructor on a session that close() or terminate() has closed in
  the meantime: that tick takes the session from Closed to Open.
\<close>

theorem ready_state_forward:
  "(s0 = new_server \<or> new_client encode digest host version now = Inr s0) \<and>
   \<not> (readyState (run sd es s0) = CLOSED \<and> e = Tick \<and> TUpgrade \<in> set (ticks (run sd es s0)))
   \<longrightarrow> forward (readyState (run sd es s0)) (readyState (exec sd e (run sd es s0)))"
proof
  assume h: "(s0 = new_server \<or> new_client encode digest host version now = Inr s0) \<and>
   \<not> (readyState (run sd es s0) = CLOSED \<and> e = Tick \<and> TUpgrade \<in> set (ticks (run sd es s0)))"
  then have "settled s0" using settled_new_server settled_new_client by blast
  then have "settled (run sd es s0)" by (rule run_settled)
  from step_settled_forward [OF this, of sd e] h
  show "forward (readyState (run sd es s0)) (readyState (exec sd e (run sd es s0)))"
    by (simp add: exec_readyState)
qed

theorem ready_state_forward_witness:
  "new_client (\<lambda>b. b) (\<lambda>b. b) True 13 0 = Inr sample_client \<and>
   \<not> (readyState (run accepting [ReqUpgrade (Some ''13-0258EAFA5-E914-47DA-95CA-C5AB0DC85B11'')] sample_client) = CLOSED
      \<and> SocketEnd = Tick) \<and>
   readyState (run accepting [ReqUpgrade (Some ''13-0258EAFA5-E914-47DA-95CA-C5AB0DC85B11'')] sample_client) = OPEN \<and>
   readyState (exec accepting SocketEnd
     (run accepting [ReqUpgrade (Some ''13-0258EAFA5-E914-47DA-95CA-C5AB0DC85B11'')] sample_client)) = CLOSED \<and>
   forward OPEN CLOSED \<and>
   forward (readyState (run accepting [] new_server)) (readyState (exec accepting Tick (run accepting [] new_server)))"
  using ready_state_forward [where ?s0.0 = sample_client and encode = "\<lambda>b. b" and digest = "\<lambda>b. b"
      and host = True and version = 13 and now = 0 and sd = accepting and e = SocketEnd
      and es = "[ReqUpgrade (Some ''13-0258EAFA5-E914-47DA-95CA-C5AB0DC85B11'')]"]
    ready_state_forward [where ?s0.0 = new_server and sd = accepting and e = Tick and es = "[]"]
  by (simp add: sample_client_eq model_defs new_client_def session_key_def accept_of_def GUID_def Let_def
      decimal.simps digit_def)

text \<open>
  C2 as stated fails: when the socket ends while the session is open, the state goes from
  Open to Closed without passing through Closing.
\<close>

theorem open_to_closed_counterexample:
  "readyState (run accepting [ReqUpgrade (Some ''13-0258EAFA5-E914-47DA-95CA-C5AB0DC85B11'')] sample_client) = OPEN \<and>
   readyState (run accepting [ReqUpgrade (Some ''13-0258EAFA5-E914-47DA-95CA-C5AB0DC85B11''), SocketEnd] sample_client) = CLOSED \<and>
   \<not> spec_move OPEN CLOSED"
  by (simp add: sample_client_eq model_defs)

subsection \<open>The mask of the frames\<close>
































subsection \<open>The queue gate\<close>

lemma frame_of_role: "isServer s' = isServer s \<Longrightarrow> frame_of s' d = frame_of s d"
  by (cases d) (simp_all add: default_mask_def)

lemma invoke_plain:
  "readyState s = OPEN \<Longrightarrow> queue s = None \<Longrightarrow> plain d \<Longrightarrow>
     invoke sd d s = (sd (frame_of s d), out (Enc (frame_of s d)) s)"
proof (cases d)
  case (DSend data options cb)
  assume "readyState s = OPEN" "queue s = None" "plain d"
  with DSend show ?thesis
    by (cases data; cases options) (simp_all add: send_def Let_def call_def)
next
  case (DStream options cb)
  assume "plain d"
  with DStream show ?thesis by simp
qed

lemma replay_plain:
  "readyState s = OPEN \<Longrightarrow> queue s = None \<Longrightarrow> \<forall>d \<in> set q. plain d \<and> sd (frame_of s d) = None \<Longrightarrow>
     replay sd q s = (None, s\<lparr>trace := trace s @ map (\<lambda>d. Enc (frame_of s d)) q\<rparr>)"
proof (induction q arbitrary: s)
  case Nil
  then show ?case by simp
next
  case (Cons d q)
  define s' where "s' = out (Enc (frame_of s d)) s"
  from Cons.prems have inv: "invoke sd d s = (None, s')"
    by (simp add: invoke_plain s'_def)
  have same: "\<And>x. frame_of s' x = frame_of s x"
    by (rule frame_of_role) (simp add: s'_def out_def)
  from Cons.prems have "readyState s' = OPEN" "queue s' = None"
    "\<forall>x \<in> set q. plain x \<and> sd (frame_of s' x) = None"
    by (simp_all add: same) (simp_all add: s'_def out_def)
  from Cons.IH [OF this] inv show ?case
    by (simp add: same) (simp add: s'_def out_def)
qed

lemma replay_steps: "replay sd q s = steps sd (map call_of q) s"
proof (induction q arbitrary: s)
  case Nil
  show ?case by simp
next
  case (Cons d q)
  have "invoke sd d s = step sd (call_of d) s" by (cases d) simp_all
  with Cons.IH show ?case by (simp split: prod.splits option.splits)
qed

lemma waiting_server_eq:
  "waiting_server =
     \<lparr>isServer = True, readyState = OPEN, socket = True, attached = True,
      pending = False, key = [], expectedServerKey = [],
      queue = Some [DSend (JStr ''X'') OAbsent None, DStream OAbsent (Some 2),
                    DSend (JStr ''Y'') OAbsent None],
      closeCode = Undefined, closeMessage = Undefined, errorListener = False,
      readers = [],
      streams = [(\<lparr>mask = JBool False, binary = Undefined, fin = Undefined\<rparr>, 1)],
      ticks = [TStreamCb 1 0], trace = [Emit EvOpen]\<rparr>"
  by code_simp

text \<open>
  C1, as the code has it. While the queue is present, a send or a stream (with its
  callback) called in state Open emits nothing and puts itself at the end of the queue.
  ping and pong do not look at the queue: in state Open they go to the Sender at once,
  queue or no queue. When the queue is released it is removed, and the calls that were put
  on it are made again in the order they were put in, each at most once: a call that raises
  ends the release, and the calls after it are not made; when none raises, each is made
  once. Queued sends of plain data reach the Sender in that order (as long as the Sender
  takes them).
\<close>

theorem queue_gate:
  "(\<forall>q. queue s = Some q \<longrightarrow>
      executeQueueSends sd s = steps sd (map call_of q) (s\<lparr>queue := None\<rparr>)) \<and>
   (readyState s = OPEN \<longrightarrow>
     (\<forall>q. queue s = Some q \<longrightarrow>
        send sd data options cb s =
          (None, s\<lparr>queue := Some (q @ [DSend (if falsy data then JStr [] else data)
                     (case options of OFun f \<Rightarrow> OObj no_opts | _ \<Rightarrow> options)
                     (case options of OFun f \<Rightarrow> Some f | _ \<Rightarrow> cb)])\<rparr>) \<and>
        ((case options of OFun f \<Rightarrow> Some f | _ \<Rightarrow> cb) \<noteq> None \<longrightarrow>
           stream options cb s =
             (None, s\<lparr>queue := Some (q @ [DStream
                        (case options of OFun f \<Rightarrow> OObj no_opts | _ \<Rightarrow> options)
                        (case options of OFun f \<Rightarrow> Some f | _ \<Rightarrow> cb)])\<rparr>)) \<and>
        ((\<forall>d \<in> set q. plain d \<and> sd (frame_of s d) = None) \<longrightarrow>
           executeQueueSends sd s =
             (None, s\<lparr>queue := None, trace := trace s @ map (\<lambda>d. Enc (frame_of s d)) q\<rparr>))) \<and>
     ping sd data popts s =
       (sd (EPing data (default_mask s (case popts of None \<Rightarrow> no_opts | Some o' \<Rightarrow> o'))),
        s\<lparr>trace := trace s @ [Enc (EPing data (default_mask s (case popts of None \<Rightarrow> no_opts | Some o' \<Rightarrow> o')))]\<rparr>) \<and>
     pong sd data popts s =
       (sd (EPong data (default_mask s (case popts of None \<Rightarrow> no_opts | Some o' \<Rightarrow> o'))),
        s\<lparr>trace := trace s @ [Enc (EPong data (default_mask s (case popts of None \<Rightarrow> no_opts | Some o' \<Rightarrow> o')))]\<rparr>))"
proof -
  have rel: "executeQueueSends sd s = steps sd (map call_of q) (s\<lparr>queue := None\<rparr>)"
    if "queue s = Some q" for q
    using that by (simp add: executeQueueSends_def replay_steps)
  have se: "send sd data options cb s =
          (None, s\<lparr>queue := Some (q @ [DSend (if falsy data then JStr [] else data)
                     (case options of OFun f \<Rightarrow> OObj no_opts | _ \<Rightarrow> options)
                     (case options of OFun f \<Rightarrow> Some f | _ \<Rightarrow> cb)])\<rparr>)"
    if "readyState s = OPEN" "queue s = Some q" for q
    using that by (simp add: send_def Let_def)
  have st: "stream options cb s =
             (None, s\<lparr>queue := Some (q @ [DStream
                        (case options of OFun f \<Rightarrow> OObj no_opts | _ \<Rightarrow> options)
                        (case options of OFun f \<Rightarrow> Some f | _ \<Rightarrow> cb)])\<rparr>)"
    if "readyState s = OPEN" "queue s = Some q"
      "(case options of OFun f \<Rightarrow> Some f | _ \<Rightarrow> cb) \<noteq> None" for q
  proof -
    from that(3) obtain c where "(case options of OFun f \<Rightarrow> Some f | _ \<Rightarrow> cb) = Some c" by blast
    with that(1,2) show ?thesis by (simp add: stream_def Let_def)
  qed
  have pl: "executeQueueSends sd s =
             (None, s\<lparr>queue := None, trace := trace s @ map (\<lambda>d. Enc (frame_of s d)) q\<rparr>)"
    if o: "readyState s = OPEN" and q: "queue s = Some q"
      and p: "\<forall>d \<in> set q. plain d \<and> sd (frame_of s d) = None" for q
  proof -
    have same: "\<And>x. frame_of (s\<lparr>queue := None\<rparr>) x = frame_of s x"
      by (rule frame_of_role) simp
    from o p have "replay sd q (s\<lparr>queue := None\<rparr>) =
        (None, s\<lparr>queue := None, trace := trace (s\<lparr>queue := None\<rparr>) @ map (\<lambda>d. Enc (frame_of (s\<lparr>queue := None\<rparr>) d)) q\<rparr>)"
      using replay_plain [of "s\<lparr>queue := None\<rparr>" q sd] by (simp add: same)
    with q show ?thesis by (simp add: executeQueueSends_def same)
  qed
  have pi: "ping sd data popts s =
       (sd (EPing data (default_mask s (case popts of None \<Rightarrow> no_opts | Some o' \<Rightarrow> o'))),
        s\<lparr>trace := trace s @ [Enc (EPing data (default_mask s (case popts of None \<Rightarrow> no_opts | Some o' \<Rightarrow> o')))]\<rparr>)"
    if "readyState s = OPEN"
    using that by (simp add: ping_def call_def out_def)
  have po: "pong sd data popts s =
       (sd (EPong data (default_mask s (case popts of None \<Rightarrow> no_opts | Some o' \<Rightarrow> o'))),
        s\<lparr>trace := trace s @ [Enc (EPong data (default_mask s (case popts of None \<Rightarrow> no_opts | Some o' \<Rightarrow> o')))]\<rparr>)"
    if "readyState s = OPEN"
    using that by (simp add: pong_def call_def out_def)
  from rel se st pl pi po show ?thesis by blast
qed

theorem queue_gate_witness:
  "readyState streaming_server = OPEN \<and>
   queue streaming_server = Some [DSend (JStr ''X'') OAbsent None] \<and>
   plain (DSend (JStr ''X'') OAbsent None) \<and>
   accepting (frame_of streaming_server (DSend (JStr ''X'') OAbsent None)) = None \<and>
   (case OAbsent of OFun f \<Rightarrow> Some f | _ \<Rightarrow> Some (2::nat)) \<noteq> None \<and>
   send accepting (JStr ''Y'') OAbsent None streaming_server =
     (None, streaming_server
        \<lparr>queue := Some [DSend (JStr ''X'') OAbsent None, DSend (JStr ''Y'') OAbsent None]\<rparr>) \<and>
   stream OAbsent (Some 2) streaming_server =
     (None, streaming_server
        \<lparr>queue := Some [DSend (JStr ''X'') OAbsent None, DStream OAbsent (Some 2)]\<rparr>) \<and>
   executeQueueSends accepting streaming_server =
     (None, streaming_server\<lparr>queue := None, trace := [Emit EvOpen,
        Enc (ESend (JStr ''X'') \<lparr>mask = JBool False, binary = Undefined, fin = JBool True\<rparr> None)]\<rparr>) \<and>
   ping accepting (JStr ''p'') None streaming_server =
     (None, streaming_server\<lparr>trace := [Emit EvOpen,
        Enc (EPing (JStr ''p'') \<lparr>mask = JBool False, binary = Undefined, fin = Undefined\<rparr>)]\<rparr>) \<and>
   queue waiting_server =
     Some [DSend (JStr ''X'') OAbsent None, DStream OAbsent (Some 2), DSend (JStr ''Y'') OAbsent None] \<and>
   executeQueueSends accepting waiting_server =
     (None, waiting_server\<lparr>queue := Some [DSend (JStr ''Y'') OAbsent None],
        streams := [(\<lparr>mask = JBool False, binary = Undefined, fin = Undefined\<rparr>, 1),
                    (\<lparr>mask = JBool False, binary = Undefined, fin = Undefined\<rparr>, 2)],
        ticks := [TStreamCb 1 0, TStreamCb 2 1],
        trace := [Emit EvOpen,
          Enc (ESend (JStr ''X'') \<lparr>mask = JBool False, binary = Undefined, fin = JBool True\<rparr> None)]\<rparr>) \<and>
   queue closed_mid_stream =
     Some [DSend (JStr ''X'') OAbsent (Some 8), DSend (JStr ''Y'') OAbsent None,
           DSend (JStr ''Z'') OAbsent (Some 9)] \<and>
   executeQueueSends accepting closed_mid_stream =
     (Some NotOpened, closed_mid_stream\<lparr>queue := None,
        trace := trace closed_mid_stream @ [Cb 8 (Some NotOpened)]\<rparr>)"
  using queue_gate [where sd = accepting and s = streaming_server
      and data = "JStr ''Y''" and options = OAbsent and cb = None and popts = None]
    queue_gate [where sd = accepting and s = streaming_server
      and data = "JStr ''p''" and options = OAbsent and cb = "Some 2" and popts = None]
    queue_gate [where sd = accepting and s = waiting_server]
    queue_gate [where sd = accepting and s = closed_mid_stream]
  by (simp add: streaming_server_eq waiting_server_eq closed_mid_stream_eq model_defs)

text \<open>
  C1 as stated fails for ping: a ping called while a ReadStream is being sent reaches the
  Sender before the chunks and before the frame with fin = true that ends the stream.
\<close>

theorem ping_overtakes_stream_counterexample:
  "queue (run accepting [Tick, Send (ReadStream 1) OAbsent None] new_server) = Some [] \<and>
   trace (run accepting [Tick, Send (ReadStream 1) OAbsent None, Ping (JStr ''p'') None,
       StreamData 1 (JStr ''hel''), StreamEnd 1] new_server) =
     [Emit EvOpen,
      StreamOn 1 \<lparr>mask = JBool False, binary = Undefined, fin = JBool True\<rparr> (Some (SendDone None)),
      Enc (EPing (JStr ''p'') \<lparr>mask = JBool False, binary = Undefined, fin = Undefined\<rparr>),
      Enc (ESend (JStr ''hel'') \<lparr>mask = JBool False, binary = Undefined, fin = JBool False\<rparr> None),
      Enc (ESend Null \<lparr>mask = JBool False, binary = Undefined, fin = JBool True\<rparr> None)]"
  by code_simp

end
